theory Spec2Isabelle
  imports Complex_Main "HOL-Library.Product_Lexorder" "HOL-Library.Log_Nat" "HOL-Library.Multiset"
begin

section \<open>Clothing Store API: order ledger and monthly report\<close>

text \<open>
  A shallow embedding of the order endpoints of \<^verbatim>\<open>main.py\<close>: \<^verbatim>\<open>create_order\<close>,
  \<^verbatim>\<open>list_orders\<close>, \<^verbatim>\<open>mark_paid\<close> and \<^verbatim>\<open>monthly_report\<close>. The database handle
  \<^verbatim>\<open>db\<close> is an explicit argument (\<open>None\<close> when it is not configured) and each
  endpoint that writes returns the new database next to its response. Every call of
  \<^verbatim>\<open>datetime.utcnow()\<close> is an argument of the endpoint, in the order in which the
  code reads the clock, and so is the version of the interpreter where the builtin
  \<^verbatim>\<open>sum\<close> is called. A raised exception is the \<open>Inl\<close> branch of the result.
\<close>

subsection \<open>Exceptions\<close>

datatype error =
    HTTPException nat string
  | ValueError
  | OverflowError
  | InvalidId

subsection \<open>Python numbers\<close>

text \<open>
  A Python \<^verbatim>\<open>float\<close> is a binary64 number: a finite value, an infinity or NaN. A finite
  value is the rational it denotes (so the two zeros are one value; Python's \<^verbatim>\<open>==\<close>
  does not tell them apart either). Every operation rounds its exact result to the
  nearest binary64 number, ties to even: 53 significant bits down to the exponent -1022,
  multiples of \<open>2^-1074\<close> below, and an infinity when the rounded value reaches
  \<open>2^1024\<close>, that is, when its exponent is 1024 or more.
\<close>

datatype double = Fin rat | PInf | NInf | NaN

definition round_half_even :: "rat \<Rightarrow> int" where
  "round_half_even q =
     (let f = \<lfloor>q\<rfloor>; r = q - of_int f
      in if r < 1 / 2 then f else if 1 / 2 < r then f + 1 else if even f then f else f + 1)"

definition pow2 :: "int \<Rightarrow> rat" where
  "pow2 e = (if 0 \<le> e then of_int (2 ^ nat e) else 1 / of_int (2 ^ nat (- e)))"

text \<open>The binary exponent of a non-zero rational: the \<open>e\<close> with \<open>2^e \<le> |q| < 2^(e+1)\<close>.\<close>

definition exponent :: "rat \<Rightarrow> int" where
  "exponent q =
     (let (a, b) = quotient_of \<bar>q\<bar>; e = bitlen a - bitlen b
      in if pow2 e \<le> \<bar>q\<bar> then e else e - 1)"

definition rnd64 :: "rat \<Rightarrow> double" where
  "rnd64 q =
     (if q = 0 then Fin 0
      else let e = max (exponent q) (- 1022);
               u = pow2 (e - 52);
               r = of_int (round_half_even (q / u)) * u
           in if 1024 \<le> exponent r then (if 0 < q then PInf else NInf) else Fin r)"

fun fsign :: "double \<Rightarrow> int" where
  "fsign (Fin a) = (if a < 0 then - 1 else if a = 0 then 0 else 1)"
| "fsign PInf = 1"
| "fsign NInf = - 1"
| "fsign NaN = 0"

fun fneg :: "double \<Rightarrow> double" where
  "fneg (Fin a) = Fin (- a)"
| "fneg PInf = NInf"
| "fneg NInf = PInf"
| "fneg NaN = NaN"

fun fadd :: "double \<Rightarrow> double \<Rightarrow> double" where
  "fadd (Fin a) (Fin b) = rnd64 (a + b)"
| "fadd NaN y = NaN"
| "fadd x NaN = NaN"
| "fadd PInf NInf = NaN"
| "fadd NInf PInf = NaN"
| "fadd PInf y = PInf"
| "fadd x PInf = PInf"
| "fadd NInf y = NInf"
| "fadd x NInf = NInf"

definition fsub :: "double \<Rightarrow> double \<Rightarrow> double" where
  "fsub x y = fadd x (fneg y)"

fun fmul :: "double \<Rightarrow> double \<Rightarrow> double" where
  "fmul (Fin a) (Fin b) = rnd64 (a * b)"
| "fmul NaN y = NaN"
| "fmul x NaN = NaN"
| "fmul x y = (if fsign x * fsign y = 0 then NaN else if 0 < fsign x * fsign y then PInf else NInf)"

fun fabs :: "double \<Rightarrow> double" where
  "fabs (Fin a) = Fin \<bar>a\<bar>"
| "fabs PInf = PInf"
| "fabs NInf = PInf"
| "fabs NaN = NaN"

text \<open>The comparison \<^verbatim>\<open>x >= y\<close> of C: false as soon as one side is NaN.\<close>

fun fge :: "double \<Rightarrow> double \<Rightarrow> bool" where
  "fge (Fin a) (Fin b) = (b \<le> a)"
| "fge NaN y = False"
| "fge x NaN = False"
| "fge PInf y = True"
| "fge x NInf = True"
| "fge x y = False"

fun is_finite :: "double \<Rightarrow> bool" where
  "is_finite (Fin a) = True"
| "is_finite x = False"

text \<open>The float a decimal literal denotes.\<close>

definition float_lit :: "rat \<Rightarrow> double" where
  "float_lit q = rnd64 q"

text \<open>
  \<^verbatim>\<open>float(n)\<close> of a Python integer, as the float operators do it for an integer
  operand: \<^verbatim>\<open>OverflowError\<close> when the rounded value is no finite float.
\<close>

definition float_of_int :: "int \<Rightarrow> error + double" where
  "float_of_int n = (case rnd64 (of_int n) of Fin r \<Rightarrow> Inr (Fin r) | _ \<Rightarrow> Inl OverflowError)"

text \<open>
  \<^verbatim>\<open>round(x, 2)\<close> on a float: an infinity or NaN is returned as it is; the exact value
  of a finite \<open>x\<close> is rounded to two decimals, ties to even, and the float nearest to that
  decimal is returned.
\<close>

fun fround2 :: "double \<Rightarrow> double" where
  "fround2 (Fin x) = rnd64 (of_int (round_half_even (x * 100)) / 100)"
| "fround2 x = x"

text \<open>
  A number is an \<^verbatim>\<open>int\<close> or a \<^verbatim>\<open>float\<close>. Arithmetic on two integers is exact; on
  mixed operands the integer is converted to a float first, which can raise.
\<close>

datatype pynum = PyInt int | PyFloat double

fun py_add :: "pynum \<Rightarrow> pynum \<Rightarrow> error + pynum" where
  "py_add (PyInt a) (PyInt b) = Inr (PyInt (a + b))"
| "py_add (PyInt a) (PyFloat y) =
     (case float_of_int a of Inl e \<Rightarrow> Inl e | Inr x \<Rightarrow> Inr (PyFloat (fadd x y)))"
| "py_add (PyFloat x) (PyInt b) =
     (case float_of_int b of Inl e \<Rightarrow> Inl e | Inr y \<Rightarrow> Inr (PyFloat (fadd x y)))"
| "py_add (PyFloat x) (PyFloat y) = Inr (PyFloat (fadd x y))"

fun py_mul :: "pynum \<Rightarrow> pynum \<Rightarrow> error + pynum" where
  "py_mul (PyInt a) (PyInt b) = Inr (PyInt (a * b))"
| "py_mul (PyInt a) (PyFloat y) =
     (case float_of_int a of Inl e \<Rightarrow> Inl e | Inr x \<Rightarrow> Inr (PyFloat (fmul x y)))"
| "py_mul (PyFloat x) (PyInt b) =
     (case float_of_int b of Inl e \<Rightarrow> Inl e | Inr y \<Rightarrow> Inr (PyFloat (fmul x y)))"
| "py_mul (PyFloat x) (PyFloat y) = Inr (PyFloat (fmul x y))"

text \<open>
  The builtin \<^verbatim>\<open>sum\<close> depends on the interpreter. Before CPython 3.12 its result is that
  of adding the items to the integer 0 from left to right. From CPython 3.12 on it runs in
  three phases (with a C \<^verbatim>\<open>long\<close> of 64 bits):
  \<^item> while the total is an integer that fits a \<^verbatim>\<open>long\<close>, integers are added exactly;
  \<^item> once the total is a float, a float item is added with Neumaier's compensation: the
    rounding error of each addition is collected in \<open>c\<close> and added at the end, when it is
    finite and not zero; an integer item that fits a \<^verbatim>\<open>long\<close> is added without
    compensation;
  \<^item> any other item ends the phase: the compensation is added and the rest is summed
    from left to right.
\<close>

datatype pyver = Before312 | From312

fun sum_generic :: "pynum \<Rightarrow> pynum list \<Rightarrow> error + pynum" where
  "sum_generic acc [] = Inr acc"
| "sum_generic acc (x # xs) =
     (case py_add acc x of Inl e \<Rightarrow> Inl e | Inr acc' \<Rightarrow> sum_generic acc' xs)"

definition fits_long :: "int \<Rightarrow> bool" where
  "fits_long n = (- (2 ^ 63) \<le> n \<and> n < 2 ^ 63)"

definition flush :: "double \<Rightarrow> double \<Rightarrow> double" where
  "flush f c = (if c \<noteq> Fin 0 \<and> is_finite c then fadd f c else f)"

fun sum_float :: "double \<Rightarrow> double \<Rightarrow> pynum list \<Rightarrow> error + pynum" where
  "sum_float f c [] = Inr (PyFloat (flush f c))"
| "sum_float f c (PyFloat x # xs) =
     (let t = fadd f x;
          c' = (if fge (fabs f) (fabs x) then fadd c (fadd (fsub f t) x)
                else fadd c (fadd (fsub x t) f))
      in sum_float t c' xs)"
| "sum_float f c (PyInt n # xs) =
     (if fits_long n then sum_float (fadd f (rnd64 (of_int n))) c xs
      else (case py_add (PyFloat (flush f c)) (PyInt n) of
              Inl e \<Rightarrow> Inl e
            | Inr acc \<Rightarrow> sum_generic acc xs))"

fun sum_int :: "int \<Rightarrow> pynum list \<Rightarrow> error + pynum" where
  "sum_int acc [] = Inr (PyInt acc)"
| "sum_int acc (PyInt n # xs) =
     (if fits_long n \<and> fits_long (acc + n) then sum_int (acc + n) xs
      else sum_generic (PyInt (acc + n)) xs)"
| "sum_int acc (PyFloat x # xs) =
     (case py_add (PyInt acc) (PyFloat x) of
        Inl e \<Rightarrow> Inl e
      | Inr (PyFloat f) \<Rightarrow> sum_float f (Fin 0) xs
      | Inr (PyInt k) \<Rightarrow> sum_generic (PyInt k) xs)"

fun py_sum :: "pyver \<Rightarrow> pynum list \<Rightarrow> error + pynum" where
  "py_sum Before312 xs = sum_generic (PyInt 0) xs"
| "py_sum From312 xs = sum_int 0 xs"

text \<open>\<^verbatim>\<open>round(x, 2)\<close>: an \<^verbatim>\<open>int\<close> is returned as it is.\<close>

fun py_round2 :: "pynum \<Rightarrow> pynum" where
  "py_round2 (PyInt n) = PyInt n"
| "py_round2 (PyFloat x) = PyFloat (fround2 x)"

text \<open>Python's \<^verbatim>\<open>==\<close> on numbers compares the values; NaN equals nothing.\<close>

fun py_eq :: "pynum \<Rightarrow> pynum \<Rightarrow> bool" where
  "py_eq (PyInt a) (PyInt b) = (a = b)"
| "py_eq (PyInt a) (PyFloat (Fin y)) = (of_int a = y)"
| "py_eq (PyFloat (Fin x)) (PyInt b) = (x = of_int b)"
| "py_eq (PyFloat NaN) y = False"
| "py_eq x (PyFloat NaN) = False"
| "py_eq (PyFloat x) (PyFloat y) = (x = y)"
| "py_eq x y = False"

subsection \<open>Timestamps\<close>

text \<open>
  A naive \<^verbatim>\<open>datetime\<close>: year, month, day, hour, minute, second, microsecond, compared
  field by field from the left as Python does.
\<close>

type_synonym datetime = "int \<times> int \<times> int \<times> int \<times> int \<times> int \<times> int"

definition dt_year :: "datetime \<Rightarrow> int" where
  "dt_year t = fst t"

definition dt_month :: "datetime \<Rightarrow> int" where
  "dt_month t = fst (snd t)"

definition is_leap :: "int \<Rightarrow> bool" where
  "is_leap y = (if y mod 400 = 0 then True else if y mod 100 = 0 then False else y mod 4 = 0)"

definition days_in_month :: "int \<Rightarrow> int \<Rightarrow> int" where
  "days_in_month y m =
     (if m = 2 then (if is_leap y then 29 else 28)
      else if m = 4 \<or> m = 6 \<or> m = 9 \<or> m = 11 then 30 else 31)"

text \<open>
  The constructor \<^verbatim>\<open>datetime(y, m, d)\<close> takes its arguments as C integers and raises
  \<^verbatim>\<open>OverflowError\<close> when one does not fit; it raises \<^verbatim>\<open>ValueError\<close> outside the calendar.
\<close>

definition fits_c_int :: "int \<Rightarrow> bool" where
  "fits_c_int n = (- (2 ^ 31) \<le> n \<and> n < 2 ^ 31)"

definition dt :: "int \<Rightarrow> int \<Rightarrow> int \<Rightarrow> error + datetime" where
  "dt y m d =
     (if \<not> (fits_c_int y \<and> fits_c_int m \<and> fits_c_int d) then Inl OverflowError
      else if 1 \<le> y \<and> y \<le> 9999 \<and> 1 \<le> m \<and> m \<le> 12 \<and> 1 \<le> d \<and> d \<le> days_in_month y m
      then Inr (y, m, d, 0, 0, 0, 0) else Inl ValueError)"

subsection \<open>Identifiers\<close>

text \<open>
  Modelled from the spec: the identifier codec (\<^verbatim>\<open>bson.objectid.ObjectId\<close>, not part of
  the sources). A well-formed identifier is a string of 24 hexadecimal digits; it denotes
  a 12-byte value, printed back as 24 lower-case digits. Any other string raises
  \<^verbatim>\<open>InvalidId\<close>.
\<close>

type_synonym objectid = nat

definition hex_table :: "(char \<times> nat) list" where
  "hex_table =
     [(CHR ''0'', 0), (CHR ''1'', 1), (CHR ''2'', 2), (CHR ''3'', 3), (CHR ''4'', 4),
      (CHR ''5'', 5), (CHR ''6'', 6), (CHR ''7'', 7), (CHR ''8'', 8), (CHR ''9'', 9),
      (CHR ''a'', 10), (CHR ''b'', 11), (CHR ''c'', 12), (CHR ''d'', 13), (CHR ''e'', 14),
      (CHR ''f'', 15), (CHR ''A'', 10), (CHR ''B'', 11), (CHR ''C'', 12), (CHR ''D'', 13),
      (CHR ''E'', 14), (CHR ''F'', 15)]"

definition hex_val :: "char \<Rightarrow> nat option" where
  "hex_val c = map_of hex_table c"

definition ObjectId :: "string \<Rightarrow> error + objectid" where
  "ObjectId s =
     (if length s = 24 \<and> list_all (\<lambda>c. hex_val c \<noteq> None) s
      then Inr (foldl (\<lambda>n c. 16 * n + the (hex_val c)) 0 s)
      else Inl InvalidId)"

definition hex_digit :: "nat \<Rightarrow> char" where
  "hex_digit n = ''0123456789abcdef'' ! (n mod 16)"

fun hex_str :: "nat \<Rightarrow> nat \<Rightarrow> string" where
  "hex_str 0 n = []"
| "hex_str (Suc k) n = hex_str k (n div 16) @ [hex_digit n]"

definition str_oid :: "objectid \<Rightarrow> string" where
  "str_oid n = hex_str 24 n"

subsection \<open>Request and document types\<close>

text \<open>
  The request classes declare their fields by type only: an item has two strings, a float
  price and an integer quantity, with no bound on either number. The values of the
  records below are the payloads that the input type lets through to the endpoint.
\<close>

record OrderItemIn =
  product_id :: string
  title :: string
  price :: double
  quantity :: int

record CreateOrderRequest =
  req_customer_name :: string
  req_customer_email :: string
  req_shipping_address :: string
  req_items :: "OrderItemIn list"

record MarkPaidRequest =
  order_id :: string

text \<open>
  The fields of an order document. \<open>paid_at\<close> is \<open>None\<close> while the key is absent.
  The stored document carries the native key \<^verbatim>\<open>_id\<close>; the response carries the string
  \<^verbatim>\<open>id\<close> instead.
\<close>

record order_body =
  customer_name :: string
  customer_email :: string
  shipping_address :: string
  items :: "OrderItemIn list"
  subtotal :: pynum
  status :: string
  payment_method :: string
  created_at :: datetime
  updated_at :: datetime
  paid_at :: "datetime option"

record order_doc = order_body +
  oid :: objectid

record order_out = order_body +
  id_str :: string

subsection \<open>The record store\<close>

text \<open>
  Modelled from the spec: the record store (\<^verbatim>\<open>database.py\<close> and the MongoDB collection
  behind it are not part of the sources). The \<^verbatim>\<open>order\<close> collection is the list of
  its documents in insertion order, with the next identifier the store assigns.
  \<^verbatim>\<open>insert_one\<close> appends a document under a fresh identifier, \<^verbatim>\<open>update_one\<close> changes
  the first document with the given key and reports how many it matched,
  \<^verbatim>\<open>find().sort("created_at", -1)\<close> is a stable sort by descending \<open>created_at\<close>, and
  the \<^verbatim>\<open>$match\<close>/\<^verbatim>\<open>$group\<close> pipeline filters by the window and gives one row per status
  with its count and the sum of the subtotals. The store adds numbers without raising:
  integers exactly, and floats after converting an integer operand, to an infinity when
  it is too large.
\<close>

record store =
  docs :: "order_doc list"
  next_id :: objectid

type_synonym database = "store option"

definition insert_one :: "store \<Rightarrow> order_body \<Rightarrow> objectid \<times> store" where
  "insert_one st b =
     (next_id st,
      st\<lparr>docs := docs st @
           [\<lparr>customer_name = customer_name b, customer_email = customer_email b,
             shipping_address = shipping_address b, items = items b, subtotal = subtotal b,
             status = status b, payment_method = payment_method b,
             created_at = created_at b, updated_at = updated_at b, paid_at = paid_at b,
             oid = next_id st\<rparr>],
          next_id := next_id st + 1\<rparr>)"

fun update_first :: "order_doc list \<Rightarrow> objectid \<Rightarrow> (order_doc \<Rightarrow> order_doc) \<Rightarrow> nat \<times> order_doc list" where
  "update_first [] i f = (0, [])"
| "update_first (d # ds) i f =
     (if oid d = i then (1, f d # ds)
      else (case update_first ds i f of (n, ds') \<Rightarrow> (n, d # ds')))"

definition update_one :: "store \<Rightarrow> objectid \<Rightarrow> (order_doc \<Rightarrow> order_doc) \<Rightarrow> nat \<times> store" where
  "update_one st i f = (case update_first (docs st) i f of (n, ds') \<Rightarrow> (n, st\<lparr>docs := ds'\<rparr>))"

fun insert_desc :: "order_doc \<Rightarrow> order_doc list \<Rightarrow> order_doc list" where
  "insert_desc x [] = [x]"
| "insert_desc x (y # ys) =
     (if created_at y \<le> created_at x then x # y # ys else y # insert_desc x ys)"

definition find_sort_created_at_desc :: "store \<Rightarrow> order_doc list" where
  "find_sort_created_at_desc st = foldr insert_desc (docs st) []"

fun store_double :: "pynum \<Rightarrow> double" where
  "store_double (PyInt n) = rnd64 (of_int n)"
| "store_double (PyFloat x) = x"

fun store_add :: "pynum \<Rightarrow> pynum \<Rightarrow> pynum" where
  "store_add (PyInt a) (PyInt b) = PyInt (a + b)"
| "store_add x y = PyFloat (fadd (store_double x) (store_double y))"

definition store_sum :: "pynum list \<Rightarrow> pynum" where
  "store_sum xs = foldl store_add (PyInt 0) xs"

record group_row =
  row_id :: string
  row_count :: int
  row_revenue :: pynum

definition aggregate_match_group :: "store \<Rightarrow> datetime \<Rightarrow> datetime \<Rightarrow> group_row list" where
  "aggregate_match_group st start end =
     (let ms = filter (\<lambda>d. start \<le> created_at d \<and> created_at d < end) (docs st)
      in map (\<lambda>s. \<lparr>row_id = s,
                    row_count = int (length (filter (\<lambda>d. status d = s) ms)),
                    row_revenue = store_sum (map subtotal (filter (\<lambda>d. status d = s) ms))\<rparr>)
             (remdups (map status ms)))"

subsection \<open>Endpoints\<close>

text \<open>
  \<^verbatim>\<open>to_dict\<close> replaces the key \<^verbatim>\<open>_id\<close> by its string under \<^verbatim>\<open>id\<close>. Its first
  branch returns an empty document as it is; an order document is never empty.
\<close>

definition to_dict :: "order_doc \<Rightarrow> order_out" where
  "to_dict d =
     \<lparr>customer_name = customer_name d, customer_email = customer_email d,
      shipping_address = shipping_address d, items = items d, subtotal = subtotal d,
      status = status d, payment_method = payment_method d,
      created_at = created_at d, updated_at = updated_at d, paid_at = paid_at d,
      id_str = str_oid (oid d)\<rparr>"

text \<open>
  \<^verbatim>\<open>create_order\<close>. The products \<^verbatim>\<open>item.price * item.quantity\<close> multiply a float by
  an integer, so each can raise \<^verbatim>\<open>OverflowError\<close>; this happens before the clock is read
  and before anything is stored. \<open>now1\<close> and \<open>now2\<close> are the two clock readings of the
  document literal, \<^verbatim>\<open>created_at\<close> first.
\<close>

fun item_products :: "OrderItemIn list \<Rightarrow> error + pynum list" where
  "item_products [] = Inr []"
| "item_products (item # its) =
     (case py_mul (PyFloat (price item)) (PyInt (quantity item)) of
        Inl e \<Rightarrow> Inl e
      | Inr p \<Rightarrow> (case item_products its of Inl e \<Rightarrow> Inl e | Inr ps \<Rightarrow> Inr (p # ps)))"

definition order_subtotal :: "pyver \<Rightarrow> OrderItemIn list \<Rightarrow> error + pynum" where
  "order_subtotal ver its =
     (case item_products its of
        Inl e \<Rightarrow> Inl e
      | Inr ps \<Rightarrow> (case py_sum ver ps of Inl e \<Rightarrow> Inl e | Inr s \<Rightarrow> Inr (py_round2 s)))"

definition create_order ::
  "pyver \<Rightarrow> database \<Rightarrow> CreateOrderRequest \<Rightarrow> datetime \<Rightarrow> datetime \<Rightarrow> error + order_out \<times> database" where
  "create_order ver db req now1 now2 =
     (case db of
        None \<Rightarrow> Inl (HTTPException 500 ''Database not configured'')
      | Some st \<Rightarrow>
          (case order_subtotal ver (req_items req) of
             Inl e \<Rightarrow> Inl e
           | Inr amount \<Rightarrow>
               let doc = \<lparr>customer_name = req_customer_name req,
                          customer_email = req_customer_email req,
                          shipping_address = req_shipping_address req,
                          items = req_items req,
                          subtotal = amount,
                          status = ''pending'',
                          payment_method = ''qr'',
                          created_at = now1,
                          updated_at = now2,
                          paid_at = None\<rparr>;
                   (inserted_id, st') = insert_one st doc
               in Inr (\<lparr>customer_name = customer_name doc, customer_email = customer_email doc,
                        shipping_address = shipping_address doc, items = items doc,
                        subtotal = subtotal doc, status = status doc,
                        payment_method = payment_method doc, created_at = created_at doc,
                        updated_at = updated_at doc, paid_at = paid_at doc,
                        id_str = str_oid inserted_id\<rparr>, Some st')))"

definition list_orders :: "database \<Rightarrow> error + order_out list" where
  "list_orders db =
     (case db of
        None \<Rightarrow> Inl (HTTPException 500 ''Database not configured'')
      | Some st \<Rightarrow> Inr (map to_dict (find_sort_created_at_desc st)))"

text \<open>
  \<^verbatim>\<open>mark_paid\<close>: the body of the \<^verbatim>\<open>try\<close> block first, then the endpoint with its
  \<^verbatim>\<open>except Exception\<close> handler, which turns every exception of the body into the
  400 response. \<open>now1\<close> is the reading stored in \<^verbatim>\<open>paid_at\<close>, \<open>now2\<close> the one in
  \<^verbatim>\<open>updated_at\<close>.
\<close>

record MarkPaidResponse =
  updated :: bool

definition mark_paid_try ::
  "store \<Rightarrow> MarkPaidRequest \<Rightarrow> datetime \<Rightarrow> datetime \<Rightarrow> error + MarkPaidResponse \<times> database" where
  "mark_paid_try st payload now1 now2 =
     (case ObjectId (order_id payload) of
        Inl e \<Rightarrow> Inl e
      | Inr i \<Rightarrow>
          (case update_one st i
                  (\<lambda>d. d\<lparr>status := ''paid'', paid_at := Some now1, updated_at := now2\<rparr>) of
             (matched_count, st') \<Rightarrow>
               if matched_count = 0 then Inl (HTTPException 404 ''Order not found'')
               else Inr (\<lparr>updated = True\<rparr>, Some st')))"

definition mark_paid ::
  "database \<Rightarrow> MarkPaidRequest \<Rightarrow> datetime \<Rightarrow> datetime \<Rightarrow> error + MarkPaidResponse \<times> database" where
  "mark_paid db payload now1 now2 =
     (case db of
        None \<Rightarrow> Inl (HTTPException 500 ''Database not configured'')
      | Some st \<Rightarrow>
          (case mark_paid_try st payload now1 now2 of
             Inl e \<Rightarrow> Inl (HTTPException 400 ''Invalid ID'')
           | Inr r \<Rightarrow> Inr r))"

text \<open>
  \<^verbatim>\<open>monthly_report\<close>: \<open>year\<close> and \<open>month\<close> are \<open>None\<close> when the query parameter is
  omitted; \<^verbatim>\<open>x or y\<close> takes \<open>y\<close> when \<open>x\<close> is \<^verbatim>\<open>None\<close> or zero.
\<close>

definition py_or :: "int option \<Rightarrow> int \<Rightarrow> int" where
  "py_or x y = (case x of None \<Rightarrow> y | Some v \<Rightarrow> if v = 0 then y else v)"

record summary_entry =
  orders :: int
  revenue :: pynum

record MonthlyReport =
  rep_year :: int
  rep_month :: int
  summary :: "string \<rightharpoonup> summary_entry"
  total_orders :: int
  total_revenue :: pynum

definition month_end :: "int \<Rightarrow> int \<Rightarrow> error + datetime" where
  "month_end y m = (if m = 12 then dt (y + 1) 1 1 else dt y (m + 1) 1)"

definition monthly_report ::
  "pyver \<Rightarrow> database \<Rightarrow> int option \<Rightarrow> int option \<Rightarrow> datetime \<Rightarrow> error + MonthlyReport" where
  "monthly_report ver db year month now =
     (case db of
        None \<Rightarrow> Inl (HTTPException 500 ''Database not configured'')
      | Some st \<Rightarrow>
          let y = py_or year (dt_year now);
              m = py_or month (dt_month now)
          in (case dt y m 1 of
                Inl e \<Rightarrow> Inl e
              | Inr start \<Rightarrow>
                  (case month_end y m of
                     Inl e \<Rightarrow> Inl e
                   | Inr end \<Rightarrow>
                       let agg = aggregate_match_group st start end;
                           summ = map_of (map (\<lambda>row. (row_id row,
                                    \<lparr>orders = row_count row,
                                     revenue = py_round2 (row_revenue row)\<rparr>)) agg);
                           orders_total = (if agg \<noteq> [] then sum_list (map row_count agg) else 0)
                       in if agg \<noteq> []
                          then (case py_sum ver (map row_revenue agg) of
                                  Inl e \<Rightarrow> Inl e
                                | Inr s \<Rightarrow>
                                    Inr \<lparr>rep_year = y, rep_month = m, summary = summ,
                                         total_orders = orders_total,
                                         total_revenue = py_round2 s\<rparr>)
                          else Inr \<lparr>rep_year = y, rep_month = m, summary = summ,
                                    total_orders = orders_total,
                                    total_revenue = PyFloat (Fin 0)\<rparr>)))"

text \<open>
  The window of the spec for a calendar month: from the first instant of the month
  (included) to the first instant of the following month (excluded).
\<close>

definition in_month_window :: "int \<Rightarrow> int \<Rightarrow> datetime \<Rightarrow> bool" where
  "in_month_window y m t =
     ((y, m, 1, 0, 0, 0, 0) \<le> t \<and>
      t < (if m = 12 then (y + 1, 1, 1, 0, 0, 0, 0) else (y, m + 1, 1, 0, 0, 0, 0)))"

text \<open>
  The four endpoints as one operation type, and the database an operation leaves behind.
  \<^verbatim>\<open>list_orders\<close> and \<^verbatim>\<open>monthly_report\<close> only read; an endpoint that raises has
  written nothing.
\<close>

datatype operation =
    CreateOrder CreateOrderRequest datetime datetime
  | ListOrders
  | MarkPaid MarkPaidRequest datetime datetime
  | MonthlyReportOp "int option" "int option" datetime

fun db_after :: "pyver \<Rightarrow> database \<Rightarrow> operation \<Rightarrow> database" where
  "db_after ver db (CreateOrder req now1 now2) =
     (case create_order ver db req now1 now2 of Inl e \<Rightarrow> db | Inr (v, db') \<Rightarrow> db')"
| "db_after ver db ListOrders = db"
| "db_after ver db (MarkPaid payload now1 now2) =
     (case mark_paid db payload now1 now2 of Inl e \<Rightarrow> db | Inr (r, db') \<Rightarrow> db')"
| "db_after ver db (MonthlyReportOp year month now) = db"

definition orders_of :: "database \<Rightarrow> order_doc list" where
  "orders_of db = (case db of None \<Rightarrow> [] | Some st \<Rightarrow> docs st)"

text \<open>
  How the statuses of a collection may differ after some operations: no document is lost,
  a document that was there keeps its status or is paid, a new one is pending or paid.
\<close>

definition status_step :: "order_doc list \<Rightarrow> order_doc list \<Rightarrow> bool" where
  "status_step ds ds' =
     (length ds \<le> length ds' \<and>
      (\<forall>k<length ds. status (ds' ! k) = status (ds ! k) \<or> status (ds' ! k) = ''paid'') \<and>
      (\<forall>k. length ds \<le> k \<and> k < length ds' \<longrightarrow>
           status (ds' ! k) = ''pending'' \<or> status (ds' ! k) = ''paid''))"

text \<open>
  The integers that \<^verbatim>\<open>float\<close> converts, and the subtotals that \<^verbatim>\<open>create_order\<close>
  writes: a float, or the integer 0 of an order without items.
\<close>

definition float_fits :: "int \<Rightarrow> bool" where
  "float_fits n = (case rnd64 (of_int n) of Fin r \<Rightarrow> True | _ \<Rightarrow> False)"

fun created_subtotal :: "pynum \<Rightarrow> bool" where
  "created_subtotal (PyInt n) = (n = 0)"
| "created_subtotal (PyFloat x) = True"

subsection \<open>Sample data\<close>

text \<open>Concrete inputs on which the theorems below are instantiated.\<close>

definition sample_doc :: order_doc where
  "sample_doc =
     \<lparr>customer_name = ''Ann'', customer_email = ''ann@example.org'',
      shipping_address = ''1 Main St'', items = [], subtotal = PyInt 0, status = ''pending'',
      payment_method = ''qr'', created_at = (2024, 2, 29, 23, 59, 59, 999000),
      updated_at = (2024, 2, 29, 23, 59, 59, 999000), paid_at = None, oid = 0\<rparr>"

definition sample_store :: store where
  "sample_store = \<lparr>docs = [sample_doc], next_id = 1\<rparr>"

definition empty_store :: store where
  "empty_store = \<lparr>docs = [], next_id = 0\<rparr>"

definition sample_payload :: MarkPaidRequest where
  "sample_payload = \<lparr>order_id = ''000000000000000000000000''\<rparr>"

definition sample_items :: "OrderItemIn list" where
  "sample_items =
     [\<lparr>product_id = ''p1'', title = ''Shirt'', price = float_lit (1999 / 100), quantity = 2\<rparr>,
      \<lparr>product_id = ''p2'', title = ''Socks'', price = float_lit (5005 / 1000), quantity = 1\<rparr>]"

definition sample_request :: "OrderItemIn list \<Rightarrow> CreateOrderRequest" where
  "sample_request its =
     \<lparr>req_customer_name = ''Ann'', req_customer_email = ''ann@example.org'',
      req_shipping_address = ''1 Main St'', req_items = its\<rparr>"

definition paid_store :: store where
  "paid_store = \<lparr>docs = [sample_doc\<lparr>status := ''paid''\<rparr>], next_id = 1\<rparr>"

definition sample_ops :: "operation list" where
  "sample_ops =
     [CreateOrder (sample_request sample_items) (2024, 3, 1, 9, 0, 0, 0) (2024, 3, 1, 9, 0, 0, 5),
      MarkPaid sample_payload (2024, 3, 2, 9, 0, 0, 0) (2024, 3, 2, 9, 0, 0, 5),
      ListOrders,
      MonthlyReportOp None None (2024, 3, 3, 9, 0, 0, 0)]"



text \<open>
  Three orders: two created in the last millisecond of February 2024 and, inserted between
  them, one created in the first instant of March 2024.
\<close>

definition march_doc :: order_doc where
  "march_doc = sample_doc\<lparr>created_at := (2024, 3, 1, 0, 0, 0, 0),
                            updated_at := (2024, 3, 1, 0, 0, 0, 0), oid := 1\<rparr>"

definition tie_doc :: order_doc where
  "tie_doc = sample_doc\<lparr>customer_name := ''Bob'', status := ''paid'', oid := 2\<rparr>"

definition tie_store :: store where
  "tie_store = \<lparr>docs = [sample_doc, march_doc, tie_doc], next_id = 3\<rparr>"

definition december_9999_doc :: order_doc where
  "december_9999_doc = sample_doc\<lparr>created_at := (9999, 12, 15, 0, 0, 0, 0),
                                    updated_at := (9999, 12, 15, 0, 0, 0, 0)\<rparr>"

definition december_9999_store :: store where
  "december_9999_store = \<lparr>docs = [december_9999_doc], next_id = 1\<rparr>"

subsection \<open>Updating the first document with a key\<close>

lemma update_first_miss:
  "\<forall>d\<in>set ds. oid d \<noteq> i \<Longrightarrow> update_first ds i f = (0, ds)"
  by (induction ds) auto

lemma update_first_hit:
  "\<exists>d\<in>set ds. oid d = i \<Longrightarrow>
   \<exists>k<length ds. oid (ds ! k) = i \<and> update_first ds i f = (1, ds[k := f (ds ! k)])"
proof (induction ds)
  case Nil
  then show ?case by simp
next
  case (Cons d ds)
  show ?case
  proof (cases "oid d = i")
    case True
    then have "oid ((d # ds) ! 0) = i \<and> update_first (d # ds) i f = (1, (d # ds)[0 := f ((d # ds) ! 0)])"
      by simp
    then show ?thesis by blast
  next
    case False
    with Cons.prems have "\<exists>d\<in>set ds. oid d = i" by auto
    from Cons.IH [OF this] obtain k where k: "k < length ds" "oid (ds ! k) = i"
      "update_first ds i f = (1, ds[k := f (ds ! k)])" by blast
    with False have "Suc k < length (d # ds) \<and> oid ((d # ds) ! Suc k) = i \<and>
      update_first (d # ds) i f = (1, (d # ds)[Suc k := f ((d # ds) ! Suc k)])"
      by simp
    then show ?thesis by blast
  qed
qed

lemma update_first_length: "length (snd (update_first ds i f)) = length ds"
  by (induction ds) (auto split: prod.splits)

lemma update_first_nth:
  "k < length ds \<Longrightarrow>
   snd (update_first ds i f) ! k = ds ! k \<or> snd (update_first ds i f) ! k = f (ds ! k)"
proof (induction ds arbitrary: k)
  case Nil
  then show ?case by simp
next
  case (Cons d ds)
  show ?case
  proof (cases k)
    case 0
    then show ?thesis by (auto split: prod.splits)
  next
    case (Suc j)
    with Cons.prems have "j < length ds" by simp
    from Cons.IH [OF this] Suc show ?thesis by (auto split: prod.splits)
  qed
qed

subsection \<open>Answers of \<^verbatim>\<open>mark_paid\<close>\<close>

lemma mark_paid_found:
  assumes "ObjectId (order_id payload) = Inr i" and "\<exists>d\<in>set (docs st). oid d = i"
  shows "\<exists>k<length (docs st). oid (docs st ! k) = i \<and>
     mark_paid (Some st) payload now1 now2 =
       Inr (\<lparr>updated = True\<rparr>,
            Some (st\<lparr>docs := (docs st)[k := (docs st ! k)\<lparr>status := ''paid'', paid_at := Some now1,
                                                       updated_at := now2\<rparr>]\<rparr>))"
proof -
  from update_first_hit [OF assms(2)] obtain k where k: "k < length (docs st)" "oid (docs st ! k) = i"
    "update_first (docs st) i (\<lambda>d. d\<lparr>status := ''paid'', paid_at := Some now1, updated_at := now2\<rparr>) =
       (1, (docs st)[k := (docs st ! k)\<lparr>status := ''paid'', paid_at := Some now1, updated_at := now2\<rparr>])"
    by blast
  then have "mark_paid (Some st) payload now1 now2 =
       Inr (\<lparr>updated = True\<rparr>,
            Some (st\<lparr>docs := (docs st)[k := (docs st ! k)\<lparr>status := ''paid'', paid_at := Some now1,
                                                       updated_at := now2\<rparr>]\<rparr>))"
    using assms(1) by (simp add: mark_paid_def mark_paid_try_def update_one_def)
  with k show ?thesis by blast
qed

lemma mark_paid_missing:
  assumes "ObjectId (order_id payload) = Inr i" and "\<forall>d\<in>set (docs st). oid d \<noteq> i"
  shows "mark_paid (Some st) payload now1 now2 = Inl (HTTPException 400 ''Invalid ID'')"
  using assms update_first_miss [OF assms(2)]
  by (simp add: mark_paid_def mark_paid_try_def update_one_def)

lemma mark_paid_malformed:
  assumes "ObjectId (order_id payload) = Inl e"
  shows "mark_paid (Some st) payload now1 now2 = Inl (HTTPException 400 ''Invalid ID'')"
  using assms by (simp add: mark_paid_def mark_paid_try_def)

lemma mark_paid_never_404:
  "mark_paid db payload now1 now2 \<noteq> Inl (HTTPException 404 ''Order not found'')"
  by (auto simp: mark_paid_def split: option.splits sum.splits)

text \<open>
  C1. The claim asks for a 404 answer when a well-formed identifier matches no stored order.
  The 404 exception is raised inside the \<^verbatim>\<open>try\<close> block and the handler for
  \<^verbatim>\<open>Exception\<close> replaces it: on an empty store the well-formed identifier of 24 zeros
  gets the same 400 ``Invalid ID'' answer as a malformed string.
\<close>

theorem mark_paid_missing_order_answers_400:
  "ObjectId (order_id sample_payload) = Inr 0 \<and>
   mark_paid (Some empty_store) sample_payload now1 now2 = Inl (HTTPException 400 ''Invalid ID'') \<and>
   ObjectId ''not-an-id'' = Inl InvalidId \<and>
   mark_paid (Some empty_store) \<lparr>order_id = ''not-an-id''\<rparr> now1 now2
     = Inl (HTTPException 400 ''Invalid ID'')"
proof -
  have a: "ObjectId (order_id sample_payload) = Inr 0"
    by (simp add: sample_payload_def ObjectId_def hex_val_def hex_table_def)
  have b: "ObjectId (order_id \<lparr>order_id = ''not-an-id''\<rparr>) = Inl InvalidId"
    by (simp add: ObjectId_def)
  have c: "\<forall>d\<in>set (docs empty_store). oid d \<noteq> 0"
    by (simp add: empty_store_def)
  show ?thesis
    using a b mark_paid_missing [OF a c] mark_paid_malformed [OF b] by simp
qed

subsection \<open>Paying an order twice\<close>

lemma update_first_at:
  "k < length ds \<Longrightarrow> oid (ds ! k) = i \<Longrightarrow> \<forall>j<k. oid (ds ! j) \<noteq> i \<Longrightarrow>
   update_first ds i f = (1, ds[k := f (ds ! k)])"
proof (induction ds arbitrary: k)
  case Nil
  then show ?case by simp
next
  case (Cons d ds)
  show ?case
  proof (cases k)
    case 0
    with Cons.prems show ?thesis by simp
  next
    case (Suc n)
    with Cons.prems have d: "oid d \<noteq> i" by auto
    from Suc Cons.prems have "n < length ds" "oid (ds ! n) = i" "\<forall>j<n. oid (ds ! j) \<noteq> i"
      by auto
    from Cons.IH [OF this] d Suc show ?thesis by simp
  qed
qed

lemma first_match:
  "\<exists>d\<in>set ds. oid d = i \<Longrightarrow> \<exists>k<length ds. oid (ds ! k) = i \<and> (\<forall>j<k. oid (ds ! j) \<noteq> i)"
proof -
  assume "\<exists>d\<in>set ds. oid d = i"
  then obtain n where n: "n < length ds \<and> oid (ds ! n) = i"
    by (auto simp: in_set_conv_nth)
  define k where "k = (LEAST n. n < length ds \<and> oid (ds ! n) = i)"
  have "k < length ds \<and> oid (ds ! k) = i"
    unfolding k_def using n by (rule LeastI)
  moreover have "\<forall>j<k. oid (ds ! j) \<noteq> i"
  proof (intro allI impI)
    fix j assume "j < k"
    then have "\<not> (j < length ds \<and> oid (ds ! j) = i)"
      unfolding k_def by (rule not_less_Least)
    moreover from \<open>j < k\<close> \<open>k < length ds \<and> oid (ds ! k) = i\<close> have "j < length ds" by simp
    ultimately show "oid (ds ! j) \<noteq> i" by simp
  qed
  ultimately show ?thesis by blast
qed

lemma mark_paid_at:
  assumes "ObjectId (order_id payload) = Inr i" and "k < length (docs st)"
    and "oid (docs st ! k) = i" and "\<forall>j<k. oid (docs st ! j) \<noteq> i"
  shows "mark_paid (Some st) payload now1 now2 =
       Inr (\<lparr>updated = True\<rparr>,
            Some (st\<lparr>docs := (docs st)[k := (docs st ! k)\<lparr>status := ''paid'', paid_at := Some now1,
                                                       updated_at := now2\<rparr>]\<rparr>))"
  using assms(1) update_first_at [OF assms(2,3,4)]
  by (simp add: mark_paid_def mark_paid_try_def update_one_def)

text \<open>
  C4. Two successive calls of \<^verbatim>\<open>mark_paid\<close> with a well-formed identifier of a stored
  order both answer \<^verbatim>\<open>{updated: true}\<close>; the order has status paid after each of them,
  and the second call changes nothing in the collection but \<^verbatim>\<open>paid_at\<close> and
  \<^verbatim>\<open>updated_at\<close> of that order.
\<close>

theorem mark_paid_twice:
  assumes "ObjectId (order_id payload) = Inr i" and "\<exists>d\<in>set (docs st). oid d = i"
  shows "\<exists>st1 st2 k.
     mark_paid (Some st) payload t1 t2 = Inr (\<lparr>updated = True\<rparr>, Some st1) \<and>
     mark_paid (Some st1) payload t3 t4 = Inr (\<lparr>updated = True\<rparr>, Some st2) \<and>
     k < length (docs st) \<and> oid (docs st ! k) = i \<and>
     status (docs st1 ! k) = ''paid'' \<and> status (docs st2 ! k) = ''paid'' \<and>
     docs st2 = (docs st1)[k := (docs st1 ! k)\<lparr>paid_at := Some t3, updated_at := t4\<rparr>] \<and>
     map status (docs st2) = map status (docs st1) \<and>
     next_id st2 = next_id st1"
proof -
  from first_match [OF assms(2)] obtain k where k: "k < length (docs st)" "oid (docs st ! k) = i"
    "\<forall>j<k. oid (docs st ! j) \<noteq> i" by blast
  define d1 where "d1 = (docs st ! k)\<lparr>status := ''paid'', paid_at := Some t1, updated_at := t2\<rparr>"
  define st1 where "st1 = st\<lparr>docs := (docs st)[k := d1]\<rparr>"
  define st2 where "st2 = st1\<lparr>docs := (docs st1)[k := (docs st1 ! k)\<lparr>status := ''paid'',
    paid_at := Some t3, updated_at := t4\<rparr>]\<rparr>"
  have c1: "mark_paid (Some st) payload t1 t2 = Inr (\<lparr>updated = True\<rparr>, Some st1)"
    unfolding st1_def d1_def by (rule mark_paid_at [OF assms(1) k])
  have k1: "k < length (docs st1)" "oid (docs st1 ! k) = i" "\<forall>j<k. oid (docs st1 ! j) \<noteq> i"
    using k by (simp_all add: st1_def d1_def)
  have c2: "mark_paid (Some st1) payload t3 t4 = Inr (\<lparr>updated = True\<rparr>, Some st2)"
    unfolding st2_def by (rule mark_paid_at [OF assms(1) k1])
  have s1: "status (docs st1 ! k) = ''paid''"
    using k(1) by (simp add: st1_def d1_def)
  have e: "(docs st1 ! k)\<lparr>status := ''paid'', paid_at := Some t3, updated_at := t4\<rparr>
         = (docs st1 ! k)\<lparr>paid_at := Some t3, updated_at := t4\<rparr>"
    using s1 by simp
  have d2: "docs st2 = (docs st1)[k := (docs st1 ! k)\<lparr>paid_at := Some t3, updated_at := t4\<rparr>]"
    unfolding st2_def e by simp
  have s2: "status (docs st2 ! k) = ''paid''"
    using k1(1) s1 by (simp add: d2)
  have m: "map status (docs st2) = map status (docs st1)"
    unfolding d2 using k1(1) by (simp add: map_update list_update_same_conv)
  have n: "next_id st2 = next_id st1"
    by (simp add: st2_def)
  from c1 c2 k s1 s2 d2 m n show ?thesis by blast
qed

theorem mark_paid_twice_witness:
  "\<exists>st1 st2 k.
     mark_paid (Some sample_store) sample_payload (2024, 3, 1, 9, 0, 0, 0) (2024, 3, 1, 9, 0, 0, 5)
       = Inr (\<lparr>updated = True\<rparr>, Some st1) \<and>
     mark_paid (Some st1) sample_payload (2024, 3, 2, 9, 0, 0, 0) (2024, 3, 2, 9, 0, 0, 5)
       = Inr (\<lparr>updated = True\<rparr>, Some st2) \<and>
     k < length (docs sample_store) \<and> oid (docs sample_store ! k) = 0 \<and>
     status (docs st1 ! k) = ''paid'' \<and> status (docs st2 ! k) = ''paid'' \<and>
     docs st2 = (docs st1)[k := (docs st1 ! k)\<lparr>paid_at := Some (2024, 3, 2, 9, 0, 0, 0),
                                                 updated_at := (2024, 3, 2, 9, 0, 0, 5)\<rparr>] \<and>
     map status (docs st2) = map status (docs st1) \<and>
     next_id st2 = next_id st1"
proof -
  have a: "ObjectId (order_id sample_payload) = Inr 0"
    by (simp add: sample_payload_def ObjectId_def hex_val_def hex_table_def)
  have b: "\<exists>d\<in>set (docs sample_store). oid d = 0"
    by (simp add: sample_store_def sample_doc_def)
  show ?thesis
    by (rule mark_paid_twice [OF a b])
qed

subsection \<open>Creating an order\<close>

lemma create_order_cases:
  "create_order ver (Some st) req now1 now2 =
     (case order_subtotal ver (req_items req) of
        Inl e \<Rightarrow> Inl e
      | Inr amount \<Rightarrow>
          Inr (\<lparr>customer_name = req_customer_name req, customer_email = req_customer_email req,
                shipping_address = req_shipping_address req, items = req_items req,
                subtotal = amount, status = ''pending'',
                payment_method = ''qr'', created_at = now1, updated_at = now2, paid_at = None,
                id_str = str_oid (next_id st)\<rparr>,
               Some (st\<lparr>docs := docs st @
                  [\<lparr>customer_name = req_customer_name req, customer_email = req_customer_email req,
                    shipping_address = req_shipping_address req, items = req_items req,
                    subtotal = amount, status = ''pending'',
                    payment_method = ''qr'', created_at = now1, updated_at = now2, paid_at = None,
                    oid = next_id st\<rparr>],
                  next_id := next_id st + 1\<rparr>)))"
  by (simp add: create_order_def insert_one_def split: sum.splits)

lemma float_of_int_fits:
  "float_of_int n = (if float_fits n then Inr (rnd64 (of_int n)) else Inl OverflowError)"
  by (simp add: float_of_int_def float_fits_def split: double.splits)

lemma py_mul_price:
  "py_mul (PyFloat p) (PyInt q) =
     (if float_fits q then Inr (PyFloat (fmul p (rnd64 (of_int q)))) else Inl OverflowError)"
  by (simp add: float_of_int_fits)

lemma item_products_ok:
  "\<forall>i\<in>set its. float_fits (quantity i) \<Longrightarrow>
   item_products its = Inr (map (\<lambda>item. PyFloat (fmul (price item) (rnd64 (of_int (quantity item))))) its)"
  by (induction its) (simp_all add: py_mul_price del: py_mul.simps)

lemma item_products_fail:
  "\<exists>i\<in>set its. \<not> float_fits (quantity i) \<Longrightarrow> item_products its = Inl OverflowError"
proof (induction its)
  case Nil
  then show ?case by simp
next
  case (Cons item its)
  show ?case
  proof (cases "float_fits (quantity item)")
    case False
    then show ?thesis by (simp add: py_mul_price del: py_mul.simps)
  next
    case True
    with Cons.prems have "\<exists>i\<in>set its. \<not> float_fits (quantity i)" by auto
    from Cons.IH [OF this] True show ?thesis by (simp add: py_mul_price del: py_mul.simps)
  qed
qed

lemma float_fits_0: "float_fits 0"
  by (simp add: float_fits_def rnd64_def)

lemma py_add_created:
  "created_subtotal a \<Longrightarrow> created_subtotal x \<Longrightarrow>
   \<exists>r. py_add a x = Inr r \<and> created_subtotal r"
  using float_fits_0 by (cases a; cases x) (auto simp: float_of_int_fits)

lemma sum_generic_total:
  "created_subtotal a \<Longrightarrow> \<forall>x\<in>set xs. created_subtotal x \<Longrightarrow> \<exists>s. sum_generic a xs = Inr s"
proof (induction xs arbitrary: a)
  case Nil
  then show ?case by simp
next
  case (Cons x xs)
  from Cons.prems have "created_subtotal x" by simp
  from py_add_created [OF Cons.prems(1) this] obtain r where
    r: "py_add a x = Inr r" "created_subtotal r" by blast
  from Cons.prems have "\<forall>y\<in>set xs. created_subtotal y" by simp
  from Cons.IH [OF r(2) this] r(1) show ?case by simp
qed

lemma fits_long_0: "fits_long 0"
  by (simp add: fits_long_def)

lemma sum_float_total:
  "\<forall>x\<in>set xs. created_subtotal x \<Longrightarrow> \<exists>s. sum_float f c xs = Inr s"
proof (induction xs arbitrary: f c)
  case Nil
  then show ?case by simp
next
  case (Cons x xs)
  then have tl: "\<forall>y\<in>set xs. created_subtotal y" and hd: "created_subtotal x" by simp_all
  show ?case
  proof (cases x)
    case (PyInt n)
    with hd have "n = 0" by simp
    with PyInt Cons.IH [OF tl] show ?thesis by (simp add: fits_long_0)
  next
    case (PyFloat y)
    with Cons.IH [OF tl] show ?thesis by (simp add: Let_def)
  qed
qed

lemma sum_int_total:
  "\<forall>x\<in>set xs. created_subtotal x \<Longrightarrow> \<exists>s. sum_int 0 xs = Inr s"
proof (induction xs)
  case Nil
  then show ?case by simp
next
  case (Cons x xs)
  then have tl: "\<forall>y\<in>set xs. created_subtotal y" and hd: "created_subtotal x" by simp_all
  show ?case
  proof (cases x)
    case (PyInt n)
    with hd have "n = 0" by simp
    with PyInt Cons.IH [OF tl] show ?thesis by (simp add: fits_long_0)
  next
    case (PyFloat y)
    with sum_float_total [OF tl] float_fits_0 show ?thesis
      by (simp add: float_of_int_fits)
  qed
qed

lemma py_sum_total:
  "\<forall>x\<in>set xs. created_subtotal x \<Longrightarrow> \<exists>s. py_sum ver xs = Inr s"
  by (cases ver) (simp_all add: sum_generic_total sum_int_total)

lemma order_subtotal_ok:
  assumes "\<forall>i\<in>set its. float_fits (quantity i)"
  shows "\<exists>s. py_sum ver (map (\<lambda>item. PyFloat (fmul (price item) (rnd64 (of_int (quantity item))))) its) = Inr s \<and>
             order_subtotal ver its = Inr (py_round2 s)"
proof -
  let ?ps = "map (\<lambda>item. PyFloat (fmul (price item) (rnd64 (of_int (quantity item))))) its"
  have "\<forall>x\<in>set ?ps. created_subtotal x" by auto
  from py_sum_total [OF this] obtain s where s: "py_sum ver ?ps = Inr s" by blast
  with item_products_ok [OF assms] have "order_subtotal ver its = Inr (py_round2 s)"
    by (simp add: order_subtotal_def)
  with s show ?thesis by blast
qed

lemma order_subtotal_fail:
  "\<exists>i\<in>set its. \<not> float_fits (quantity i) \<Longrightarrow> order_subtotal ver its = Inl OverflowError"
  by (simp add: order_subtotal_def item_products_fail)

lemma order_subtotal_Nil: "order_subtotal ver [] = Inr (PyInt 0)"
  by (cases ver) (simp_all add: order_subtotal_def)

lemma sample_subtotal_before:
  "order_subtotal Before312 sample_items = Inr (PyFloat (Fin (6330372226222653 / 140737488355328)))"
  by code_simp

lemma sample_subtotal_from:
  "order_subtotal From312 sample_items = Inr (PyFloat (Fin (6330372226222653 / 140737488355328)))"
  by code_simp

lemma sample_subtotal:
  "order_subtotal ver sample_items = Inr (PyFloat (Fin (6330372226222653 / 140737488355328)))"
  by (cases ver) (simp_all only: sample_subtotal_before sample_subtotal_from)

lemma lit4498: "float_lit (4498 / 100) = Fin (6330372226222653 / 140737488355328)"
  by code_simp

lemma lit4499: "float_lit (4499 / 100) \<noteq> Fin (6330372226222653 / 140737488355328)"
  by code_simp





lemma sample_items_fit: "\<forall>i\<in>set sample_items. float_fits (quantity i)"
  by code_simp

text \<open>
  C9. A request with an empty item list is accepted: the order is stored and returned, and
  its subtotal is the integer 0 that \<^verbatim>\<open>sum\<close> gives on no items, which compares equal to 0.0.
\<close>

theorem create_order_empty_items:
  "req_items req = [] \<Longrightarrow>
   \<exists>v st'. create_order ver (Some st) req now1 now2 = Inr (v, Some st') \<and>
     subtotal v = PyInt 0 \<and> py_eq (subtotal v) (PyFloat (Fin 0)) \<and>
     length (docs st') = Suc (length (docs st)) \<and>
     items (last (docs st')) = [] \<and> subtotal (last (docs st')) = PyInt 0"
  by (simp add: create_order_cases order_subtotal_Nil)

theorem create_order_empty_items_witness:
  "\<exists>v st'. create_order From312 (Some empty_store) (sample_request []) (2024, 1, 1, 0, 0, 0, 0)
       (2024, 1, 1, 0, 0, 0, 0) = Inr (v, Some st') \<and>
     subtotal v = PyInt 0 \<and> py_eq (subtotal v) (PyFloat (Fin 0)) \<and>
     length (docs st') = Suc (length (docs empty_store)) \<and>
     items (last (docs st')) = [] \<and> subtotal (last (docs st')) = PyInt 0"
proof -
  have a: "req_items (sample_request []) = []"
    by (simp add: sample_request_def)
  show ?thesis
    by (rule create_order_empty_items [OF a])
qed

text \<open>
  C7 as stated fails: the document literal reads the clock twice, so \<^verbatim>\<open>created_at\<close>
  and \<^verbatim>\<open>updated_at\<close> differ whenever the clock advances between the two readings.
\<close>

theorem create_order_timestamps_differ:
  "\<not> isl (create_order From312 (Some empty_store) (sample_request []) (2024, 1, 1, 0, 0, 0, 0)
            (2024, 1, 1, 0, 0, 0, 1000)) \<and>
   created_at (fst (projr (create_order From312 (Some empty_store) (sample_request [])
       (2024, 1, 1, 0, 0, 0, 0) (2024, 1, 1, 0, 0, 0, 1000))))
   \<noteq> updated_at (fst (projr (create_order From312 (Some empty_store) (sample_request [])
       (2024, 1, 1, 0, 0, 0, 0) (2024, 1, 1, 0, 0, 0, 1000))))"
  by (simp add: create_order_cases order_subtotal_Nil sample_request_def)

text \<open>
  C7, amended. Every order that \<^verbatim>\<open>create_order\<close> returns has status pending and payment
  method qr whatever the request holds, and so has the order it stored; in the returned
  order \<^verbatim>\<open>created_at\<close> is the first clock reading and \<^verbatim>\<open>updated_at\<close> the second, so
  the two are equal exactly when the readings are.
\<close>

theorem create_order_defaults:
  "create_order ver (Some st) req now1 now2 = Inr (v, db') \<Longrightarrow>
     status v = ''pending'' \<and> payment_method v = ''qr'' \<and>
     created_at v = now1 \<and> updated_at v = now2 \<and>
     ((created_at v = updated_at v) = (now1 = now2)) \<and>
     (\<exists>st'. db' = Some st' \<and> length (docs st') = Suc (length (docs st)) \<and>
        status (last (docs st')) = ''pending'' \<and> payment_method (last (docs st')) = ''qr'')"
  by (auto simp: create_order_cases split: sum.splits)

theorem create_order_defaults_witness:
  "\<exists>v db'. create_order From312 (Some sample_store) (sample_request sample_items)
       (2024, 1, 1, 0, 0, 0, 0) (2024, 1, 1, 0, 0, 0, 1000) = Inr (v, db') \<and>
     status v = ''pending'' \<and> payment_method v = ''qr'' \<and>
     created_at v = (2024, 1, 1, 0, 0, 0, 0) \<and> updated_at v = (2024, 1, 1, 0, 0, 0, 1000) \<and>
     created_at v \<noteq> updated_at v \<and>
     (\<exists>st'. db' = Some st' \<and> length (docs st') = Suc (length (docs sample_store)) \<and>
        status (last (docs st')) = ''pending'' \<and> payment_method (last (docs st')) = ''qr'')"
proof -
  obtain v db' where r: "create_order From312 (Some sample_store) (sample_request sample_items)
       (2024, 1, 1, 0, 0, 0, 0) (2024, 1, 1, 0, 0, 0, 1000) = Inr (v, db')"
    by (simp add: create_order_cases sample_request_def sample_subtotal)
  from create_order_defaults [OF r] r show ?thesis
    by (intro exI [of _ v] exI [of _ db']) simp
qed




text \<open>
  C2 as stated fails on its example: for the items (19.99, 2) and (5.005, 1) the float sum
  lies below 44.985 and is rounded to 44.98, not to 44.99, on either interpreter.
\<close>

theorem create_order_sample_subtotal_is_not_4499:
  "\<not> isl (create_order Before312 (Some empty_store) (sample_request sample_items)
            (2024, 1, 1, 0, 0, 0, 0) (2024, 1, 1, 0, 0, 0, 0)) \<and>
   subtotal (fst (projr (create_order Before312 (Some empty_store) (sample_request sample_items)
       (2024, 1, 1, 0, 0, 0, 0) (2024, 1, 1, 0, 0, 0, 0)))) = PyFloat (float_lit (4498 / 100)) \<and>
   \<not> isl (create_order From312 (Some empty_store) (sample_request sample_items)
            (2024, 1, 1, 0, 0, 0, 0) (2024, 1, 1, 0, 0, 0, 0)) \<and>
   subtotal (fst (projr (create_order From312 (Some empty_store) (sample_request sample_items)
       (2024, 1, 1, 0, 0, 0, 0) (2024, 1, 1, 0, 0, 0, 0)))) = PyFloat (float_lit (4498 / 100)) \<and>
   float_lit (4498 / 100) \<noteq> float_lit (4499 / 100) \<and>
   \<not> py_eq (PyFloat (float_lit (4498 / 100))) (PyFloat (Fin (4499 / 100)))"
  unfolding lit4498 using lit4499
  by (simp add: create_order_cases sample_request_def sample_subtotal)

text \<open>
  C2, amended. When \<^verbatim>\<open>create_order\<close> returns, every quantity was converted to a float
  and the subtotal it returns and stores is \<^verbatim>\<open>round(sum(price * quantity), 2)\<close> in float
  arithmetic, with the \<^verbatim>\<open>sum\<close> of the interpreter; for the items (19.99, 2) and
  (5.005, 1) it returns, and the subtotal is the float 44.98.
\<close>

theorem create_order_subtotal:
  "(create_order ver (Some st) req now1 now2 = Inr (v, db') \<longrightarrow>
      (\<forall>i\<in>set (req_items req). float_fits (quantity i)) \<and>
      (\<exists>s st'. py_sum ver (map (\<lambda>item. PyFloat (fmul (price item) (rnd64 (of_int (quantity item)))))
                               (req_items req)) = Inr s \<and>
         subtotal v = py_round2 s \<and>
         db' = Some st' \<and> length (docs st') = Suc (length (docs st)) \<and>
         subtotal (last (docs st')) = py_round2 s)) \<and>
   (req_items req = sample_items \<longrightarrow>
      (\<exists>w st'. create_order ver (Some st) req now1 now2 = Inr (w, Some st') \<and>
         subtotal w = PyFloat (float_lit (4498 / 100)) \<and>
         subtotal (last (docs st')) = PyFloat (float_lit (4498 / 100))))"
proof (intro conjI impI)
  assume r: "create_order ver (Some st) req now1 now2 = Inr (v, db')"
  show fits: "\<forall>i\<in>set (req_items req). float_fits (quantity i)"
  proof (rule ccontr)
    assume "\<not> (\<forall>i\<in>set (req_items req). float_fits (quantity i))"
    then have "\<exists>i\<in>set (req_items req). \<not> float_fits (quantity i)" by simp
    from order_subtotal_fail [OF this, of ver] r show False
      by (simp add: create_order_cases)
  qed
  from order_subtotal_ok [OF fits, of ver] obtain s where
    s: "py_sum ver (map (\<lambda>item. PyFloat (fmul (price item) (rnd64 (of_int (quantity item)))))
                               (req_items req)) = Inr s"
       "order_subtotal ver (req_items req) = Inr (py_round2 s)" by blast
  from r s(2) have "subtotal v = py_round2 s \<and>
         (\<exists>st'. db' = Some st' \<and> length (docs st') = Suc (length (docs st)) \<and>
         subtotal (last (docs st')) = py_round2 s)"
    by (auto simp: create_order_cases)
  with s(1) show "\<exists>s st'. py_sum ver (map (\<lambda>item. PyFloat (fmul (price item) (rnd64 (of_int (quantity item)))))
                               (req_items req)) = Inr s \<and>
         subtotal v = py_round2 s \<and>
         db' = Some st' \<and> length (docs st') = Suc (length (docs st)) \<and>
         subtotal (last (docs st')) = py_round2 s"
    by blast
next
  assume "req_items req = sample_items"
  then show "\<exists>w st'. create_order ver (Some st) req now1 now2 = Inr (w, Some st') \<and>
         subtotal w = PyFloat (float_lit (4498 / 100)) \<and>
         subtotal (last (docs st')) = PyFloat (float_lit (4498 / 100))"
    unfolding lit4498 by (simp add: create_order_cases sample_subtotal)
qed

theorem create_order_subtotal_witness:
  "\<exists>w st'. create_order Before312 (Some empty_store) (sample_request sample_items)
       (2024, 1, 1, 0, 0, 0, 0) (2024, 1, 1, 0, 0, 0, 0) = Inr (w, Some st') \<and>
     (\<forall>i\<in>set sample_items. float_fits (quantity i)) \<and>
     subtotal w = PyFloat (float_lit (4498 / 100)) \<and>
     subtotal (last (docs st')) = PyFloat (float_lit (4498 / 100))"
proof -
  have a: "req_items (sample_request sample_items) = sample_items"
    by (simp add: sample_request_def)
  from create_order_subtotal [of Before312 empty_store "sample_request sample_items"
      "(2024, 1, 1, 0, 0, 0, 0)" "(2024, 1, 1, 0, 0, 0, 0)"] a
  obtain w st' where h: "create_order Before312 (Some empty_store) (sample_request sample_items)
       (2024, 1, 1, 0, 0, 0, 0) (2024, 1, 1, 0, 0, 0, 0) = Inr (w, Some st')"
     "subtotal w = PyFloat (float_lit (4498 / 100))"
     "subtotal (last (docs st')) = PyFloat (float_lit (4498 / 100))"
    by blast
  from create_order_subtotal [of Before312 empty_store "sample_request sample_items"
      "(2024, 1, 1, 0, 0, 0, 0)" "(2024, 1, 1, 0, 0, 0, 0)" w "Some st'"] h(1) a
  have "\<forall>i\<in>set sample_items. float_fits (quantity i)" by simp
  with h show ?thesis by blast
qed

subsection \<open>Status transitions\<close>

lemma status_step_refl: "status_step ds ds"
  by (auto simp: status_step_def)

lemma status_step_trans:
  assumes "status_step a b" and "status_step b c"
  shows "status_step a c"
  unfolding status_step_def
proof (intro conjI allI impI)
  show "length a \<le> length c"
    using assms by (simp add: status_step_def)
next
  fix k assume k: "k < length a"
  with assms(1) have kb: "k < length b" by (simp add: status_step_def)
  from assms(1) k have 1: "status (b ! k) = status (a ! k) \<or> status (b ! k) = ''paid''"
    by (simp add: status_step_def)
  from assms(2) kb have 2: "status (c ! k) = status (b ! k) \<or> status (c ! k) = ''paid''"
    by (simp add: status_step_def)
  from 1 2 show "status (c ! k) = status (a ! k) \<or> status (c ! k) = ''paid''" by auto
next
  fix k assume k: "length a \<le> k \<and> k < length c"
  show "status (c ! k) = ''pending'' \<or> status (c ! k) = ''paid''"
  proof (cases "k < length b")
    case True
    with k assms(1) have 1: "status (b ! k) = ''pending'' \<or> status (b ! k) = ''paid''"
      by (simp add: status_step_def)
    from assms(2) True have "status (c ! k) = status (b ! k) \<or> status (c ! k) = ''paid''"
      by (simp add: status_step_def)
    with 1 show ?thesis by auto
  next
    case False
    with k assms(2) show ?thesis by (simp add: status_step_def)
  qed
qed

lemma mark_paid_docs:
  assumes "mark_paid (Some st) payload now1 now2 = Inr (r, db')"
  shows "db' = Some (st\<lparr>docs := snd (update_first (docs st) (projr (ObjectId (order_id payload)))
           (\<lambda>d. d\<lparr>status := ''paid'', paid_at := Some now1, updated_at := now2\<rparr>))\<rparr>)"
  using assms
  by (auto simp: mark_paid_def mark_paid_try_def update_one_def
           split: sum.splits prod.splits if_splits)

lemma status_step_create:
  "status_step (orders_of db) (orders_of (db_after ver db (CreateOrder req now1 now2)))"
proof (cases db)
  case None
  then show ?thesis by (simp add: create_order_def status_step_refl)
next
  case (Some st)
  then show ?thesis
    by (auto simp: create_order_cases orders_of_def status_step_def nth_append split: sum.splits)
qed

lemma status_step_mark_paid:
  "status_step (orders_of db) (orders_of (db_after ver db (MarkPaid payload now1 now2)))"
proof (cases db)
  case None
  then show ?thesis by (simp add: mark_paid_def status_step_refl)
next
  case (Some st)
  show ?thesis
  proof (cases "mark_paid (Some st) payload now1 now2")
    case (Inl e)
    with Some show ?thesis by (simp add: status_step_refl)
  next
    case (Inr p)
    obtain r db' where p: "p = (r, db')" by (cases p)
    let ?f = "\<lambda>d::order_doc. d\<lparr>status := ''paid'', paid_at := Some now1, updated_at := now2\<rparr>"
    define i where "i = projr (ObjectId (order_id payload))"
    from mark_paid_docs [OF Inr [unfolded p]]
    have db': "db' = Some (st\<lparr>docs := snd (update_first (docs st) i ?f)\<rparr>)"
      by (simp add: i_def)
    have "status_step (docs st) (snd (update_first (docs st) i ?f))"
      unfolding status_step_def
    proof (intro conjI allI impI)
      show "length (docs st) \<le> length (snd (update_first (docs st) i ?f))"
        by (simp add: update_first_length)
    next
      fix k assume "k < length (docs st)"
      from update_first_nth [OF this, of i ?f]
      show "status (snd (update_first (docs st) i ?f) ! k) = status (docs st ! k) \<or>
            status (snd (update_first (docs st) i ?f) ! k) = ''paid''"
        by auto
    next
      fix k assume "length (docs st) \<le> k \<and> k < length (snd (update_first (docs st) i ?f))"
      then show "status (snd (update_first (docs st) i ?f) ! k) = ''pending'' \<or>
            status (snd (update_first (docs st) i ?f) ! k) = ''paid''"
        by (auto simp: update_first_length)
    qed
    with Some Inr p db' show ?thesis by (simp add: orders_of_def)
  qed
qed

lemma status_step_op: "status_step (orders_of db) (orders_of (db_after ver db op))"
proof (cases op)
  case (CreateOrder req now1 now2)
  show ?thesis unfolding CreateOrder by (rule status_step_create)
next
  case ListOrders
  then show ?thesis by (simp add: status_step_refl)
next
  case (MarkPaid payload now1 now2)
  show ?thesis unfolding MarkPaid by (rule status_step_mark_paid)
next
  case (MonthlyReportOp year month now)
  then show ?thesis by (simp add: status_step_refl)
qed

lemma status_step_ops: "status_step (orders_of db) (orders_of (foldl (db_after ver) db ops))"
proof (induction ops arbitrary: db)
  case Nil
  show ?case by (simp add: status_step_refl)
next
  case (Cons op ops)
  have "status_step (orders_of db) (orders_of (db_after ver db op))"
    by (rule status_step_op)
  moreover have "status_step (orders_of (db_after ver db op)) (orders_of (foldl (db_after ver) (db_after ver db op) ops))"
    by (rule Cons.IH)
  ultimately show ?case by (simp add: status_step_trans)
qed

text \<open>
  C6. Over any sequence of the four operations the status of a stored order either stays
  what it was or becomes paid: a paid order stays paid, an order is cancelled afterwards
  only if it was cancelled before, and every order added meanwhile is pending or paid.
\<close>

theorem status_never_goes_back:
  "length (orders_of db) \<le> length (orders_of (foldl (db_after ver) db ops)) \<and>
   (\<forall>k<length (orders_of db).
      (status (orders_of (foldl (db_after ver) db ops) ! k) = status (orders_of db ! k) \<or>
       status (orders_of (foldl (db_after ver) db ops) ! k) = ''paid'') \<and>
      (status (orders_of db ! k) = ''paid'' \<longrightarrow>
         status (orders_of (foldl (db_after ver) db ops) ! k) = ''paid'') \<and>
      (status (orders_of (foldl (db_after ver) db ops) ! k) = ''cancelled'' \<longrightarrow>
         status (orders_of db ! k) = ''cancelled'')) \<and>
   (\<forall>k. length (orders_of db) \<le> k \<and> k < length (orders_of (foldl (db_after ver) db ops)) \<longrightarrow>
      status (orders_of (foldl (db_after ver) db ops) ! k) = ''pending'' \<or>
      status (orders_of (foldl (db_after ver) db ops) ! k) = ''paid'')"
  using status_step_ops [of db ver ops] unfolding status_step_def by auto

theorem status_never_goes_back_witness:
  "0 < length (orders_of (Some paid_store)) \<and>
   status (orders_of (Some paid_store) ! 0) = ''paid'' \<and>
   status (orders_of (foldl (db_after From312) (Some paid_store) sample_ops) ! 0) = ''paid'' \<and>
   status (orders_of (foldl (db_after From312) (Some paid_store) sample_ops) ! 0) \<noteq> ''cancelled''"
proof -
  have a: "0 < length (orders_of (Some paid_store))"
    by (simp add: orders_of_def paid_store_def)
  have b: "status (orders_of (Some paid_store) ! 0) = ''paid''"
    by (simp add: orders_of_def paid_store_def)
  from status_never_goes_back [of "Some paid_store" From312 sample_ops] a b
  have "status (orders_of (foldl (db_after From312) (Some paid_store) sample_ops) ! 0) = ''paid''"
    by blast
  with a b show ?thesis by simp
qed

subsection \<open>Listing the orders\<close>

lemma insert_desc_mset: "mset (insert_desc x ys) = add_mset x (mset ys)"
  by (induction ys) simp_all

lemma insert_desc_set: "set (insert_desc x ys) = insert x (set ys)"
  by (induction ys) auto

lemma insert_desc_sorted:
  "sorted_wrt (\<lambda>a b. created_at b \<le> created_at a) ys \<Longrightarrow>
   sorted_wrt (\<lambda>a b. created_at b \<le> created_at a) (insert_desc x ys)"
proof (induction ys)
  case Nil
  then show ?case by simp
next
  case (Cons y ys)
  show ?case
  proof (cases "created_at y \<le> created_at x")
    case True
    with Cons.prems show ?thesis by (auto intro: order_trans)
  next
    case False
    then have "created_at x \<le> created_at y" by simp
    with False Cons show ?thesis by (auto simp: insert_desc_set)
  qed
qed

lemma insert_desc_filter:
  "filter (\<lambda>d. created_at d = t) (insert_desc x ys) =
     (if created_at x = t then x # filter (\<lambda>d. created_at d = t) ys
      else filter (\<lambda>d. created_at d = t) ys)"
  by (induction ys) auto

lemma sort_desc_mset: "mset (foldr insert_desc xs []) = mset xs"
  by (induction xs) (simp_all add: insert_desc_mset)

lemma sort_desc_sorted: "sorted_wrt (\<lambda>a b. created_at b \<le> created_at a) (foldr insert_desc xs [])"
  by (induction xs) (simp_all add: insert_desc_sorted)

lemma sort_desc_filter:
  "filter (\<lambda>d. created_at d = t) (foldr insert_desc xs []) = filter (\<lambda>d. created_at d = t) xs"
  by (induction xs) (simp_all add: insert_desc_filter)

lemma created_at_to_dict: "created_at (to_dict d) = created_at d"
  by (simp add: to_dict_def)

text \<open>
  C8. \<^verbatim>\<open>list_orders\<close> returns every stored order once, in descending order of
  \<^verbatim>\<open>created_at\<close>, and the orders with one and the same \<^verbatim>\<open>created_at\<close> come in the
  order in which they were inserted.
\<close>

theorem list_orders_sorted_stable:
  "\<exists>vs. list_orders (Some st) = Inr vs \<and>
     mset vs = mset (map to_dict (docs st)) \<and>
     sorted_wrt (\<lambda>a b. created_at b \<le> created_at a) vs \<and>
     (\<forall>t. filter (\<lambda>v. created_at v = t) vs
          = map to_dict (filter (\<lambda>d. created_at d = t) (docs st)))"
proof -
  let ?ds = "foldr insert_desc (docs st) []"
  have 1: "list_orders (Some st) = Inr (map to_dict ?ds)"
    by (simp add: list_orders_def find_sort_created_at_desc_def)
  have 2: "mset (map to_dict ?ds) = mset (map to_dict (docs st))"
    by (simp add: sort_desc_mset)
  have 3: "sorted_wrt (\<lambda>a b. created_at b \<le> created_at a) (map to_dict ?ds)"
    using sort_desc_sorted [of "docs st"] by (simp add: sorted_wrt_map created_at_to_dict)
  have 4: "filter (\<lambda>v. created_at v = t) (map to_dict ?ds)
          = map to_dict (filter (\<lambda>d. created_at d = t) (docs st))" for t
    using sort_desc_filter [of t "docs st"] by (simp add: filter_map comp_def created_at_to_dict)
  from 1 2 3 4 show ?thesis by blast
qed

theorem list_orders_sorted_stable_witness:
  "list_orders (Some tie_store) = Inr [to_dict march_doc, to_dict sample_doc, to_dict tie_doc] \<and>
   (\<exists>vs. list_orders (Some tie_store) = Inr vs \<and>
     mset vs = mset (map to_dict (docs tie_store)) \<and>
     sorted_wrt (\<lambda>a b. created_at b \<le> created_at a) vs \<and>
     (\<forall>t. filter (\<lambda>v. created_at v = t) vs
          = map to_dict (filter (\<lambda>d. created_at d = t) (docs tie_store))))"
proof -
  have "list_orders (Some tie_store) = Inr [to_dict march_doc, to_dict sample_doc, to_dict tie_doc]"
    by (simp add: list_orders_def find_sort_created_at_desc_def tie_store_def
        sample_doc_def march_doc_def tie_doc_def)
  with list_orders_sorted_stable [of tie_store] show ?thesis by simp
qed

subsection \<open>The window of the monthly report\<close>

lemma dt_first_day:
  "1 \<le> y \<Longrightarrow> y \<le> 9999 \<Longrightarrow> 1 \<le> m \<Longrightarrow> m \<le> 12 \<Longrightarrow> dt y m 1 = Inr (y, m, 1, 0, 0, 0, 0)"
  by (simp add: dt_def days_in_month_def fits_c_int_def)

lemma month_end_valid:
  assumes "1 \<le> y" "y \<le> 9999" "1 \<le> m" "m \<le> 12" "\<not> (y = 9999 \<and> m = 12)"
  shows "month_end y m = Inr (if m = 12 then (y + 1, 1, 1, 0, 0, 0, 0) else (y, m + 1, 1, 0, 0, 0, 0))"
proof (cases "m = 12")
  case True
  with assms have "1 \<le> y + 1" "y + 1 \<le> 9999" by auto
  with True show ?thesis by (simp add: month_end_def dt_first_day)
next
  case False
  with assms have "1 \<le> m + 1" "m + 1 \<le> 12" by auto
  with False assms show ?thesis by (simp add: month_end_def dt_first_day)
qed

lemma delta_sum:
  "distinct xs \<Longrightarrow> (\<Sum>s\<leftarrow>xs. if a = s then (1::int) else 0) = (if a \<in> set xs then 1 else 0)"
  by (induction xs) auto

lemma group_count_sum:
  "distinct xs \<Longrightarrow> status ` set ms \<subseteq> set xs \<Longrightarrow>
   (\<Sum>s\<leftarrow>xs. int (length (filter (\<lambda>d. status d = s) ms))) = int (length ms)"
proof (induction ms)
  case Nil
  then show ?case by simp
next
  case (Cons d ms)
  have "(\<Sum>s\<leftarrow>xs. int (length (filter (\<lambda>e. status e = s) (d # ms))))
      = (\<Sum>s\<leftarrow>xs. (if status d = s then 1 else 0) + int (length (filter (\<lambda>e. status e = s) ms)))"
    by (rule arg_cong [where f = sum_list]) simp
  also have "\<dots> = (\<Sum>s\<leftarrow>xs. if status d = s then 1 else 0)
                 + (\<Sum>s\<leftarrow>xs. int (length (filter (\<lambda>e. status e = s) ms)))"
    by (simp add: sum_list_addf)
  also have "\<dots> = 1 + int (length ms)"
    using Cons by (simp add: delta_sum)
  finally show ?case by simp
qed

lemma aggregate_counts:
  "sum_list (map row_count (aggregate_match_group st start end))
     = int (length (filter (\<lambda>d. start \<le> created_at d \<and> created_at d < end) (docs st)))"
proof -
  let ?ms = "filter (\<lambda>d. start \<le> created_at d \<and> created_at d < end) (docs st)"
  have "sum_list (map row_count (aggregate_match_group st start end))
      = (\<Sum>s\<leftarrow>remdups (map status ?ms). int (length (filter (\<lambda>d. status d = s) ?ms)))"
    by (simp add: aggregate_match_group_def Let_def comp_def)
  also have "\<dots> = int (length ?ms)"
    by (rule group_count_sum) simp_all
  finally show ?thesis .
qed

lemma aggregate_empty:
  "aggregate_match_group st start end = [] \<Longrightarrow>
   filter (\<lambda>d. start \<le> created_at d \<and> created_at d < end) (docs st) = []"
  by (simp add: aggregate_match_group_def Let_def)

lemma map_of_keyed:
  "map_of (map (\<lambda>k. (k, f k)) ks) s = (if s \<in> set ks then Some (f s) else None)"
  by (induction ks) auto

lemma aggregate_summary:
  "map_option orders (map_of (map (\<lambda>row. (row_id row,
        \<lparr>orders = row_count row, revenue = py_round2 (row_revenue row)\<rparr>))
        (aggregate_match_group st start end)) s)
   = (if \<exists>d\<in>set (docs st). (start \<le> created_at d \<and> created_at d < end) \<and> status d = s
      then Some (int (length (filter (\<lambda>d. (start \<le> created_at d \<and> created_at d < end) \<and> status d = s) (docs st))))
      else None)"
proof -
  define P where "P = (\<lambda>d::order_doc. start \<le> created_at d \<and> created_at d < end)"
  define ms where "ms = filter P (docs st)"
  define e where "e = (\<lambda>s. \<lparr>orders = int (length (filter (\<lambda>d. status d = s) ms)),
               revenue = py_round2 (store_sum (map subtotal (filter (\<lambda>d. status d = s) ms)))\<rparr>)"
  have rows: "map (\<lambda>row. (row_id row, \<lparr>orders = row_count row, revenue = py_round2 (row_revenue row)\<rparr>))
          (aggregate_match_group st start end)
      = map (\<lambda>s. (s, e s)) (remdups (map status ms))"
    by (simp add: aggregate_match_group_def Let_def comp_def e_def ms_def P_def)
  have look: "map_of (map (\<lambda>s. (s, e s)) (remdups (map status ms))) s
      = (if s \<in> set (remdups (map status ms)) then Some (e s) else None)"
    by (rule map_of_keyed)
  have mem: "s \<in> set (remdups (map status ms)) \<longleftrightarrow> (\<exists>d\<in>set (docs st). P d \<and> status d = s)"
    by (auto simp: ms_def)
  have cnt: "orders (e s) = int (length (filter (\<lambda>d. P d \<and> status d = s) (docs st)))"
    by (simp add: e_def ms_def)
  show ?thesis
    unfolding rows look mem using cnt by (auto simp: P_def)
qed

lemma py_or_given: "v \<noteq> 0 \<Longrightarrow> py_or (Some v) d = v"
  by (simp add: py_or_def)

lemma store_add_created:
  "created_subtotal a \<Longrightarrow> created_subtotal x \<Longrightarrow> created_subtotal (store_add a x)"
  by (cases a; cases x) simp_all

lemma foldl_store_add_created:
  "created_subtotal a \<Longrightarrow> \<forall>x\<in>set xs. created_subtotal x \<Longrightarrow>
   created_subtotal (foldl store_add a xs)"
  by (induction xs arbitrary: a) (simp_all add: store_add_created)

lemma store_sum_created:
  "\<forall>x\<in>set xs. created_subtotal x \<Longrightarrow> created_subtotal (store_sum xs)"
  by (simp add: store_sum_def foldl_store_add_created)

lemma aggregate_created:
  assumes "\<forall>d\<in>set (docs st). created_subtotal (subtotal d)"
  shows "\<forall>x\<in>set (map row_revenue (aggregate_match_group st start end)). created_subtotal x"
  using assms by (auto simp: aggregate_match_group_def Let_def intro!: store_sum_created)

lemma py_add_error: "py_add a x = Inl e \<Longrightarrow> e = OverflowError"
  by (cases a; cases x) (auto simp: float_of_int_fits split: if_splits)

lemma sum_generic_error: "sum_generic a xs = Inl e \<Longrightarrow> e = OverflowError"
proof (induction xs arbitrary: a)
  case Nil
  then show ?case by simp
next
  case (Cons x xs)
  then show ?case
    by (cases "py_add a x") (auto dest: py_add_error)
qed

lemma sum_float_error: "sum_float f c xs = Inl e \<Longrightarrow> e = OverflowError"
proof (induction f c xs rule: sum_float.induct)
  case (1 f c)
  then show ?case by simp
next
  case (2 f c x xs)
  then show ?case by (simp add: Let_def)
next
  case (3 f c n xs)
  show ?case
  proof (cases "fits_long n")
    case True
    with 3 show ?thesis by simp
  next
    case False
    show ?thesis
    proof (cases "py_add (PyFloat (flush f c)) (PyInt n)")
      case (Inl e')
      with "3.prems" False have "e = e'" by (simp del: py_add.simps)
      with py_add_error [OF Inl] show ?thesis by simp
    next
      case (Inr acc)
      with "3.prems" False have "sum_generic acc xs = Inl e" by (simp del: py_add.simps)
      then show ?thesis by (rule sum_generic_error)
    qed
  qed
qed

lemma sum_int_error: "sum_int a xs = Inl e \<Longrightarrow> e = OverflowError"
proof (induction a xs rule: sum_int.induct)
  case (1 acc)
  then show ?case by simp
next
  case (2 acc n xs)
  then show ?case
    by (cases "fits_long n \<and> fits_long (acc + n)") (auto dest: sum_generic_error)
next
  case (3 acc x xs)
  then show ?case
    by (auto simp: float_of_int_fits split: if_splits dest: sum_float_error)
qed

lemma py_sum_error: "py_sum ver xs = Inl e \<Longrightarrow> e = OverflowError"
  by (cases ver) (auto dest: sum_generic_error sum_int_error)

lemma monthly_report_fields:
  "monthly_report ver db year month now = Inr r \<Longrightarrow>
   rep_year r = py_or year (dt_year now) \<and> rep_month r = py_or month (dt_month now)"
  by (auto simp: monthly_report_def Let_def split: option.splits sum.splits if_splits)

lemma monthly_report_run:
  assumes "dt (py_or year (dt_year now)) (py_or month (dt_month now)) 1 = Inr start"
    and "month_end (py_or year (dt_year now)) (py_or month (dt_month now)) = Inr stop"
  shows "monthly_report ver (Some st) year month now =
     (if aggregate_match_group st start stop \<noteq> []
      then (case py_sum ver (map row_revenue (aggregate_match_group st start stop)) of
              Inl e \<Rightarrow> Inl e
            | Inr s \<Rightarrow>
                Inr \<lparr>rep_year = py_or year (dt_year now), rep_month = py_or month (dt_month now),
                     summary = map_of (map (\<lambda>row. (row_id row,
                        \<lparr>orders = row_count row, revenue = py_round2 (row_revenue row)\<rparr>))
                        (aggregate_match_group st start stop)),
                     total_orders = sum_list (map row_count (aggregate_match_group st start stop)),
                     total_revenue = py_round2 s\<rparr>)
      else Inr \<lparr>rep_year = py_or year (dt_year now), rep_month = py_or month (dt_month now),
                summary = map_of (map (\<lambda>row. (row_id row,
                        \<lparr>orders = row_count row, revenue = py_round2 (row_revenue row)\<rparr>))
                        (aggregate_match_group st start stop)),
                total_orders = 0, total_revenue = PyFloat (Fin 0)\<rparr>)"
  by (simp add: monthly_report_def Let_def assms)

lemma month_bounds:
  assumes "1 \<le> y" and "y \<le> 9999" and "1 \<le> m" and "m \<le> 12" and "\<not> (y = 9999 \<and> m = 12)"
  shows "dt (py_or (Some y) a) (py_or (Some m) b) 1 = Inr (y, m, 1, 0, 0, 0, 0)"
    and "month_end (py_or (Some y) a) (py_or (Some m) b)
           = Inr (if m = 12 then (y + 1, 1, 1, 0, 0, 0, 0) else (y, m + 1, 1, 0, 0, 0, 0))"
proof -
  from assms have y0: "y \<noteq> 0" and m0: "m \<noteq> 0" by auto
  show "dt (py_or (Some y) a) (py_or (Some m) b) 1 = Inr (y, m, 1, 0, 0, 0, 0)"
    unfolding py_or_given [OF y0] py_or_given [OF m0] using assms by (simp add: dt_first_day)
  show "month_end (py_or (Some y) a) (py_or (Some m) b)
           = Inr (if m = 12 then (y + 1, 1, 1, 0, 0, 0, 0) else (y, m + 1, 1, 0, 0, 0, 0))"
    unfolding py_or_given [OF y0] py_or_given [OF m0] using assms by (rule month_end_valid)
qed

lemma monthly_report_counts:
  assumes "1 \<le> y" and "y \<le> 9999" and "1 \<le> m" and "m \<le> 12" and "\<not> (y = 9999 \<and> m = 12)"
    and "monthly_report ver (Some st) (Some y) (Some m) now = Inr r"
  shows "rep_year r = y \<and> rep_month r = m \<and>
     total_orders r = int (length (filter (\<lambda>d. in_month_window y m (created_at d)) (docs st))) \<and>
     (\<forall>s. map_option orders (summary r s) =
        (if \<exists>d\<in>set (docs st). in_month_window y m (created_at d) \<and> status d = s
         then Some (int (length (filter (\<lambda>d. in_month_window y m (created_at d) \<and> status d = s)
                                        (docs st))))
         else None))"
proof -
  define start :: datetime where "start = (y, m, 1, 0, 0, 0, 0)"
  define stop :: datetime where
    "stop = (if m = 12 then (y + 1, 1, 1, 0, 0, 0, 0) else (y, m + 1, 1, 0, 0, 0, 0))"
  define agg where "agg = aggregate_match_group st start stop"
  have win: "in_month_window y m t = (start \<le> t \<and> t < stop)" for t
    by (simp only: in_month_window_def start_def stop_def)
  from assms have y0: "y \<noteq> 0" and m0: "m \<noteq> 0" by auto
  note run = monthly_report_run [OF month_bounds [OF assms(1-5)], where ver = ver and st = st and now = now,
      folded start_def stop_def, folded agg_def]
  have sm: "summary r = map_of (map (\<lambda>row. (row_id row,
          \<lparr>orders = row_count row, revenue = py_round2 (row_revenue row)\<rparr>)) agg)"
    using assms(6) unfolding run by (auto split: if_splits sum.splits)
  have tot: "total_orders r = sum_list (map row_count agg)"
    using assms(6) unfolding run by (auto split: if_splits sum.splits)
  have ym: "rep_year r = y \<and> rep_month r = m"
    using monthly_report_fields [OF assms(6)] by (simp add: py_or_given y0 m0)
  have t: "total_orders r = int (length (filter (\<lambda>d. in_month_window y m (created_at d)) (docs st)))"
    unfolding tot agg_def win by (rule aggregate_counts)
  have per: "map_option orders (summary r s) =
        (if \<exists>d\<in>set (docs st). in_month_window y m (created_at d) \<and> status d = s
         then Some (int (length (filter (\<lambda>d. in_month_window y m (created_at d) \<and> status d = s)
                                        (docs st))))
         else None)" for s
    unfolding sm agg_def win by (rule aggregate_summary)
  from ym t per show ?thesis by blast
qed

lemma monthly_report_returns:
  assumes "1 \<le> y" and "y \<le> 9999" and "1 \<le> m" and "m \<le> 12" and "\<not> (y = 9999 \<and> m = 12)"
    and "\<forall>d\<in>set (docs st). created_subtotal (subtotal d)"
  shows "\<exists>r. monthly_report ver (Some st) (Some y) (Some m) now = Inr r"
proof -
  define start :: datetime where "start = (y, m, 1, 0, 0, 0, 0)"
  define stop :: datetime where
    "stop = (if m = 12 then (y + 1, 1, 1, 0, 0, 0, 0) else (y, m + 1, 1, 0, 0, 0, 0))"
  note run = monthly_report_run [OF month_bounds [OF assms(1-5)], where ver = ver and st = st and now = now,
      folded start_def stop_def]
  from py_sum_total [OF aggregate_created [OF assms(6)]]
  obtain s where "py_sum ver (map row_revenue (aggregate_match_group st start stop)) = Inr s"
    by blast
  then show ?thesis
    unfolding run by simp
qed

lemma monthly_report_raises:
  assumes "1 \<le> y" and "y \<le> 9999" and "1 \<le> m" and "m \<le> 12" and "\<not> (y = 9999 \<and> m = 12)"
    and "monthly_report ver (Some st) (Some y) (Some m) now = Inl e"
  shows "e = OverflowError"
  using assms(6) unfolding monthly_report_run [OF month_bounds [OF assms(1-5)], where ver = ver and st = st and now = now]
  by (auto split: if_splits sum.splits dest: py_sum_error)

text \<open>
  C3 as stated fails for December 9999: an order of 9999-12-15 lies in the window of that
  month, but the end of the window, the first instant of the year 10000, is no
  \<^verbatim>\<open>datetime\<close>, and \<^verbatim>\<open>monthly_report\<close> raises \<^verbatim>\<open>ValueError\<close> instead of counting it.
\<close>

theorem monthly_report_december_9999_raises:
  "in_month_window 9999 12 (created_at december_9999_doc) \<and>
   monthly_report Before312 (Some december_9999_store) (Some 9999) (Some 12)
     (2024, 5, 17, 8, 30, 0, 0) = Inl ValueError \<and>
   monthly_report From312 (Some december_9999_store) (Some 9999) (Some 12)
     (2024, 5, 17, 8, 30, 0, 0) = Inl ValueError"
  by (simp add: in_month_window_def december_9999_doc_def sample_doc_def monthly_report_def
      py_or_def dt_def month_end_def fits_c_int_def days_in_month_def)

text \<open>
  C3, amended. For a calendar month from January of the year 1 to November 9999, a report
  that \<^verbatim>\<open>monthly_report\<close> returns counts exactly the orders whose \<^verbatim>\<open>created_at\<close> lies in
  the half-open window of that month, in the total and per status in the summary. The
  report is returned whenever the stored subtotals are those that \<^verbatim>\<open>create_order\<close>
  writes; the only exception the call can raise is the \<^verbatim>\<open>OverflowError\<close> of summing a
  float revenue and an integer one too large for a float.
\<close>

theorem monthly_report_window:
  assumes "1 \<le> y" and "y \<le> 9999" and "1 \<le> m" and "m \<le> 12" and "\<not> (y = 9999 \<and> m = 12)"
  shows "(\<forall>r. monthly_report ver (Some st) (Some y) (Some m) now = Inr r \<longrightarrow>
       rep_year r = y \<and> rep_month r = m \<and>
       total_orders r = int (length (filter (\<lambda>d. in_month_window y m (created_at d)) (docs st))) \<and>
       (\<forall>s. map_option orders (summary r s) =
          (if \<exists>d\<in>set (docs st). in_month_window y m (created_at d) \<and> status d = s
           then Some (int (length (filter (\<lambda>d. in_month_window y m (created_at d) \<and> status d = s)
                                          (docs st))))
           else None))) \<and>
     ((\<forall>d\<in>set (docs st). created_subtotal (subtotal d)) \<longrightarrow>
        (\<exists>r. monthly_report ver (Some st) (Some y) (Some m) now = Inr r)) \<and>
     (\<forall>e. monthly_report ver (Some st) (Some y) (Some m) now = Inl e \<longrightarrow> e = OverflowError)"
  using monthly_report_counts [OF assms, of ver st now] monthly_report_returns [OF assms, of st ver now]
    monthly_report_raises [OF assms, of ver st now]
  by blast

lemma tie_store_created: "\<forall>d\<in>set (docs tie_store). created_subtotal (subtotal d)"
  by (simp add: tie_store_def sample_doc_def march_doc_def tie_doc_def)

lemma tie_store_windows:
  "in_month_window 2024 2 (created_at sample_doc)"
  "\<not> in_month_window 2024 3 (created_at sample_doc)"
  "\<not> in_month_window 2024 2 (created_at march_doc)"
  "in_month_window 2024 3 (created_at march_doc)"
  "in_month_window 2024 2 (created_at tie_doc)"
  "\<not> in_month_window 2024 3 (created_at tie_doc)"
  by (simp_all add: in_month_window_def sample_doc_def march_doc_def tie_doc_def)

lemma tie_store_statuses:
  "status sample_doc = ''pending''" "status march_doc = ''pending''" "status tie_doc = ''paid''"
  by (simp_all add: sample_doc_def march_doc_def tie_doc_def)

lemma tie_store_docs: "docs tie_store = [sample_doc, march_doc, tie_doc]"
  by (simp add: tie_store_def)

theorem monthly_report_window_witness:
  "in_month_window 2024 2 (created_at sample_doc) \<and>
   \<not> in_month_window 2024 3 (created_at sample_doc) \<and>
   \<not> in_month_window 2024 2 (created_at march_doc) \<and>
   (\<exists>r. monthly_report From312 (Some tie_store) (Some 2024) (Some 2) (2024, 5, 17, 8, 30, 0, 0) = Inr r \<and>
        total_orders r = 2 \<and> map_option orders (summary r ''pending'') = Some 1) \<and>
   (\<exists>r. monthly_report From312 (Some tie_store) (Some 2024) (Some 3) (2024, 5, 17, 8, 30, 0, 0) = Inr r \<and>
        total_orders r = 1 \<and> map_option orders (summary r ''paid'') = None)"
proof -
  note a = tie_store_windows and st = tie_store_statuses and d = tie_store_docs
  have f2: "filter (\<lambda>d. in_month_window 2024 2 (created_at d)) (docs tie_store) = [sample_doc, tie_doc]"
    by (simp add: d a)
  have f3: "filter (\<lambda>d. in_month_window 2024 3 (created_at d)) (docs tie_store) = [march_doc]"
    by (simp add: d a)
  have p2: "filter (\<lambda>d. in_month_window 2024 2 (created_at d) \<and> status d = ''pending'') (docs tie_store)
      = [sample_doc]"
    by (simp add: d a st)
  have e2: "\<exists>d\<in>set (docs tie_store). in_month_window 2024 2 (created_at d) \<and> status d = ''pending''"
    by (simp add: d a st)
  have e3: "\<not> (\<exists>d\<in>set (docs tie_store). in_month_window 2024 3 (created_at d) \<and> status d = ''paid'')"
    by (simp add: d a st)
  note feb = monthly_report_window [of 2024 2 From312 tie_store "(2024, 5, 17, 8, 30, 0, 0)", simplified]
  note mar = monthly_report_window [of 2024 3 From312 tie_store "(2024, 5, 17, 8, 30, 0, 0)", simplified]
  from feb tie_store_created obtain r2 where
    r2: "monthly_report From312 (Some tie_store) (Some 2024) (Some 2) (2024, 5, 17, 8, 30, 0, 0) = Inr r2"
    by blast
  from feb r2 have c2: "total_orders r2 = int (length (filter (\<lambda>d. in_month_window 2024 2 (created_at d)) (docs tie_store)))"
    "\<forall>s. map_option orders (summary r2 s) =
        (if \<exists>d\<in>set (docs tie_store). in_month_window 2024 2 (created_at d) \<and> status d = s
         then Some (int (length (filter (\<lambda>d. in_month_window 2024 2 (created_at d) \<and> status d = s)
                                        (docs tie_store))))
         else None)"
    by blast+
  from c2(2) e2 have "map_option orders (summary r2 ''pending'')
      = Some (int (length (filter (\<lambda>d. in_month_window 2024 2 (created_at d) \<and> status d = ''pending'')
                                        (docs tie_store))))"
    by simp
  then have "map_option orders (summary r2 ''pending'') = Some 1"
    by (simp only: p2) simp
  moreover from c2(1) have "total_orders r2 = 2"
    by (simp only: f2) simp
  ultimately have febr: "\<exists>r. monthly_report From312 (Some tie_store) (Some 2024) (Some 2) (2024, 5, 17, 8, 30, 0, 0) = Inr r \<and>
        total_orders r = 2 \<and> map_option orders (summary r ''pending'') = Some 1"
    using r2 by blast
  from mar tie_store_created obtain r3 where
    r3: "monthly_report From312 (Some tie_store) (Some 2024) (Some 3) (2024, 5, 17, 8, 30, 0, 0) = Inr r3"
    by blast
  from mar r3 have c3: "total_orders r3 = int (length (filter (\<lambda>d. in_month_window 2024 3 (created_at d)) (docs tie_store)))"
    "\<forall>s. map_option orders (summary r3 s) =
        (if \<exists>d\<in>set (docs tie_store). in_month_window 2024 3 (created_at d) \<and> status d = s
         then Some (int (length (filter (\<lambda>d. in_month_window 2024 3 (created_at d) \<and> status d = s)
                                        (docs tie_store))))
         else None)"
    by blast+
  from c3(2) e3 have "map_option orders (summary r3 ''paid'') = None"
    by simp
  moreover from c3(1) have "total_orders r3 = 1"
    by (simp only: f3) simp
  ultimately have marr: "\<exists>r. monthly_report From312 (Some tie_store) (Some 2024) (Some 3) (2024, 5, 17, 8, 30, 0, 0) = Inr r \<and>
        total_orders r = 1 \<and> map_option orders (summary r ''paid'') = None"
    using r3 by blast
  from a febr marr show ?thesis by blast
qed

subsection \<open>Defaulting of the report parameters\<close>

lemma py_or_same: "py_or (Some v) v = v"
  by (simp add: py_or_def)

lemma py_or_zero: "py_or (Some 0) v = v"
  by (simp add: py_or_def)

lemma py_or_none: "py_or None v = v"
  by (simp add: py_or_def)

lemma monthly_report_py_or:
  "py_or year (dt_year now) = py_or year' (dt_year now) \<Longrightarrow>
   py_or month (dt_month now) = py_or month' (dt_month now) \<Longrightarrow>
   monthly_report ver db year month now = monthly_report ver db year' month' now"
  by (cases db) (simp_all add: monthly_report_def Let_def)

text \<open>
  C10. A report asked for with year 0 is the report asked for with no year, and that is
  the report for the year of the current UTC date, asked for explicitly; likewise for the
  month. So a report returned for year 0 or month 0 carries the current year or month.
\<close>

theorem monthly_report_zero_is_omitted:
  "monthly_report ver db (Some 0) month now = monthly_report ver db None month now \<and>
   monthly_report ver db year (Some 0) now = monthly_report ver db year None now \<and>
   monthly_report ver db None month now = monthly_report ver db (Some (dt_year now)) month now \<and>
   monthly_report ver db year None now = monthly_report ver db year (Some (dt_month now)) now \<and>
   (\<forall>r. monthly_report ver db (Some 0) month now = Inr r \<longrightarrow> rep_year r = dt_year now) \<and>
   (\<forall>r. monthly_report ver db year (Some 0) now = Inr r \<longrightarrow> rep_month r = dt_month now)"
proof (intro conjI allI impI)
  show "monthly_report ver db (Some 0) month now = monthly_report ver db None month now"
    by (rule monthly_report_py_or) (simp_all add: py_or_zero py_or_none)
  show "monthly_report ver db year (Some 0) now = monthly_report ver db year None now"
    by (rule monthly_report_py_or) (simp_all add: py_or_zero py_or_none)
  show "monthly_report ver db None month now = monthly_report ver db (Some (dt_year now)) month now"
    by (rule monthly_report_py_or) (simp_all add: py_or_same py_or_none)
  show "monthly_report ver db year None now = monthly_report ver db year (Some (dt_month now)) now"
    by (rule monthly_report_py_or) (simp_all add: py_or_same py_or_none)
next
  fix r assume "monthly_report ver db (Some 0) month now = Inr r"
  from monthly_report_fields [OF this] show "rep_year r = dt_year now"
    by (simp add: py_or_zero)
next
  fix r assume "monthly_report ver db year (Some 0) now = Inr r"
  from monthly_report_fields [OF this] show "rep_month r = dt_month now"
    by (simp add: py_or_zero)
qed

theorem monthly_report_zero_is_omitted_witness:
  "\<exists>r. monthly_report From312 (Some tie_store) (Some 0) (Some 0) (2024, 2, 17, 8, 30, 0, 0) = Inr r \<and>
     monthly_report From312 (Some tie_store) None None (2024, 2, 17, 8, 30, 0, 0) = Inr r \<and>
     monthly_report From312 (Some tie_store) (Some 2024) (Some 2) (2024, 2, 17, 8, 30, 0, 0) = Inr r \<and>
     rep_year r = 2024 \<and> rep_month r = 2 \<and> total_orders r = 2"
proof -
  let ?now = "(2024, 2, 17, 8, 30, 0, 0) :: datetime"
  have y: "dt_year ?now = 2024" and m: "dt_month ?now = 2"
    by (simp_all add: dt_year_def dt_month_def)
  from monthly_report_returns [of 2024 2 tie_store From312 ?now] tie_store_created
  obtain r where r: "monthly_report From312 (Some tie_store) (Some 2024) (Some 2) ?now = Inr r"
    by auto
  from monthly_report_counts [of 2024 2 From312 tie_store ?now r] r
  have "total_orders r = int (length (filter (\<lambda>d. in_month_window 2024 2 (created_at d)) (docs tie_store)))"
    by simp
  then have t: "total_orders r = 2"
    by (simp add: tie_store_docs tie_store_windows)
  note z1 = monthly_report_zero_is_omitted [of From312 "Some tie_store" "Some 0" ?now None]
  note z2 = monthly_report_zero_is_omitted [of From312 "Some tie_store" None ?now "Some 2024"]
  from z1 z2 have chain: "monthly_report From312 (Some tie_store) (Some 0) (Some 0) ?now
       = monthly_report From312 (Some tie_store) None None ?now"
     "monthly_report From312 (Some tie_store) None None ?now
       = monthly_report From312 (Some tie_store) (Some 2024) (Some 2) ?now"
    by (simp_all add: y m)
  with r have r0: "monthly_report From312 (Some tie_store) (Some 0) (Some 0) ?now = Inr r"
    and rn: "monthly_report From312 (Some tie_store) None None ?now = Inr r"
    by simp_all
  from z1 r0 have "rep_year r = 2024" by (simp add: y)
  moreover from monthly_report_zero_is_omitted [of From312 "Some tie_store" "Some 0" ?now "Some 0"] r0
  have "rep_month r = 2" by (simp add: m)
  ultimately show ?thesis using r r0 rn t by blast
qed

end
